theory Spec2Isabelle
  imports Main
begin

section \<open>Tokens, messages and exceptions\<close>

text \<open>
  The three source files share \<^verbatim>\<open>Token = namedtuple('Token', ['type', 'lexeme', 'line', 'col'])\<close>.
  The lexers of \<^verbatim>\<open>Analizador.py\<close> and \<^verbatim>\<open>main.py\<close> store the matched text in
  \<^verbatim>\<open>lexeme\<close>; the lexer of \<^verbatim>\<open>LexerSnake.py\<close> stores a converted value there, so the
  record is polymorphic in that field.

  Source text is a \<^typ>\<open>string\<close>: a list of characters with the code points 0 to 255.
  \<^verbatim>\<open>Analizador.py\<close> is a Python 3 file (text outside ASCII without a coding line), and
  its patterns and string methods work on Unicode: a letter above 127 is a word character
  for \<^verbatim>\<open>\b\<close> and is cased for \<^verbatim>\<open>isupper\<close>. \<^verbatim>\<open>LexerSnake.py\<close> and \<^verbatim>\<open>main.py\<close> end with
  a \<^verbatim>\<open>print\<close> statement of Python 2, where patterns work on bytes and only ASCII letters,
  digits and the underscore are word characters.
\<close>

record 'a Token =
  type :: string
  lexeme :: 'a
  line :: nat
  col :: nat

text \<open>
  Every diagnostic of the source is a format string filled with a lexeme and a position.
  A message is modelled by one constructor per format string, carrying the arguments of
  the format in the order of the source.
\<close>

datatype message =
    LexicalError string nat nat
  | UnexpectedChar string nat
  | UnexpectedCharAt string nat nat
  | ExpectedButEnd string
  | ExpectedButFound nat nat string string
  | MustStartWithGame
  | ExpectedEqualOrBrace string nat nat
  | UnexpectedEndOfInput
  | UnexpectedValue string nat nat
  | UnclosedParen string

datatype exn =
    ParserError
  | RuntimeError message
  | UnboundLocalError
  | AttributeError
  | ValueError
  | IndexError

section \<open>The regular expressions\<close>

definition digit :: "char \<Rightarrow> bool" where
  "digit c = (c \<in> set ''0123456789'')"

definition letter :: "char \<Rightarrow> bool" where
  "letter c = (c \<in> set ''abcdefghijklmnopqrstuvwxyzABCDEFGHIJKLMNOPQRSTUVWXYZ'')"

definition word_char :: "char \<Rightarrow> bool" where
  "word_char c = (letter c \<or> digit c \<or> c = CHR ''_'')"

text \<open>
  \<^verbatim>\<open>\w\<close> of Python 3 on the code points below 256: the ASCII word characters, the
  letters \<^verbatim>\<open>0xC0\<close> to \<^verbatim>\<open>0xFF\<close> without the signs \<^verbatim>\<open>0xD7\<close> and \<^verbatim>\<open>0xF7\<close>, the letters
  \<^verbatim>\<open>0xAA\<close>, \<^verbatim>\<open>0xB5\<close>, \<^verbatim>\<open>0xBA\<close>, and the numeric characters \<^verbatim>\<open>0xB2\<close>, \<^verbatim>\<open>0xB3\<close>,
  \<^verbatim>\<open>0xB9\<close>, \<^verbatim>\<open>0xBC\<close>, \<^verbatim>\<open>0xBD\<close>, \<^verbatim>\<open>0xBE\<close>.
\<close>

definition word_char_unicode :: "char \<Rightarrow> bool" where
  "word_char_unicode c =
     (word_char c \<or>
      (of_char c :: nat) \<in> set [0xAA, 0xB2, 0xB3, 0xB5, 0xB9, 0xBA, 0xBC, 0xBD, 0xBE] \<or>
      (0xC0 \<le> (of_char c :: nat) \<and> (of_char c :: nat) \<noteq> 0xD7 \<and> (of_char c :: nat) \<noteq> 0xF7))"

definition newline :: char where
  "newline = CHR 0x0A"

definition carriage_return :: char where
  "carriage_return = CHR 0x0D"

definition tab :: char where
  "tab = CHR 0x09"

definition quote :: char where
  "quote = CHR 0x22"

definition backslash :: char where
  "backslash = CHR 0x5C"

text \<open>
  A pattern is a function from the character before the position (\<open>None\<close> at offset 0;
  only \<^verbatim>\<open>\b\<close> looks at it) and the text from the position on, to the text it matches
  there, if it matches. The result is the first match in the backtracking order of
  Python's \<^verbatim>\<open>re\<close>.
\<close>

type_synonym pattern = "char option \<Rightarrow> string \<Rightarrow> string option"

text \<open>\<^verbatim>\<open>\d+(\.\d+)?\<close> and \<^verbatim>\<open>\d+(?:\.\d+)?\<close>\<close>

definition re_number :: pattern where
  "re_number prev s =
     (case takeWhile digit s of
        [] \<Rightarrow> None
      | d # ds \<Rightarrow>
          (case dropWhile digit s of
             c # r \<Rightarrow>
               (if c = CHR ''.'' \<and> takeWhile digit r \<noteq> []
                then Some ((d # ds) @ c # takeWhile digit r)
                else Some (d # ds))
           | [] \<Rightarrow> Some (d # ds)))"

text \<open>
  \<^verbatim>\<open>(\\.|[^"])*"\<close>, the part of the string pattern of \<^verbatim>\<open>Analizador.py\<close> and
  \<^verbatim>\<open>main.py\<close> after the opening quote. A backslash can be taken with the character that
  follows it (not a newline: \<^verbatim>\<open>.\<close>), or alone by \<^verbatim>\<open>[^"]\<close> when the first way does not
  lead to a closing quote; the star is left when neither way does.
\<close>

fun re_string_body :: "string \<Rightarrow> string option" where
  "re_string_body [] = None"
| "re_string_body (c # cs) =
     (case (case cs of
              d # ds \<Rightarrow>
                if c = backslash \<and> d \<noteq> newline
                then map_option (\<lambda>m. c # d # m) (re_string_body ds) else None
            | [] \<Rightarrow> None) of
        Some m \<Rightarrow> Some m
      | None \<Rightarrow>
          (case (if c \<noteq> quote then map_option (\<lambda>m. c # m) (re_string_body cs) else None) of
             Some m \<Rightarrow> Some m
           | None \<Rightarrow> if c = quote then Some [c] else None))"

text \<open>\<^verbatim>\<open>"(\\.|[^"])*"\<close>\<close>

definition re_string :: pattern where
  "re_string prev s =
     (case s of
        c # cs \<Rightarrow> if c = quote then map_option (\<lambda>m. c # m) (re_string_body cs) else None
      | [] \<Rightarrow> None)"

text \<open>\<^verbatim>\<open>"[^"\r\n]*"\<close>, the string pattern of \<^verbatim>\<open>LexerSnake.py\<close>\<close>

definition plain_char :: "char \<Rightarrow> bool" where
  "plain_char c = (c \<noteq> quote \<and> c \<noteq> carriage_return \<and> c \<noteq> newline)"

definition re_string_plain :: pattern where
  "re_string_plain prev s =
     (case s of
        c # cs \<Rightarrow>
          (if c = quote then
             (case dropWhile plain_char cs of
                e # r \<Rightarrow> if e = quote then Some (c # takeWhile plain_char cs @ [e]) else None
              | [] \<Rightarrow> None)
           else None)
      | [] \<Rightarrow> None)"

text \<open>
  \<^verbatim>\<open>\b\<close> holds between two positions when exactly one of the characters on its two sides
  is a word character; the start and the end of the text count as no word character.
  The first argument is the class of the word characters: \<open>word_char_unicode\<close> in
  \<^verbatim>\<open>Analizador.py\<close>, \<open>word_char\<close> in the two Python 2 files. (For the lexers of those
  two files the class makes no difference to what \<^verbatim>\<open>tokenize\<close> returns or raises: a
  character above 127 that stands next to a word is outside every string and comment,
  where both lexers raise \<^verbatim>\<open>RuntimeError\<close> for it.)
\<close>

definition is_word :: "(char \<Rightarrow> bool) \<Rightarrow> char option \<Rightarrow> bool" where
  "is_word w c = (case c of None \<Rightarrow> False | Some x \<Rightarrow> w x)"

definition word_boundary :: "(char \<Rightarrow> bool) \<Rightarrow> char option \<Rightarrow> char option \<Rightarrow> bool" where
  "word_boundary w a b = (is_word w a \<noteq> is_word w b)"

definition char_at :: "string \<Rightarrow> nat \<Rightarrow> char option" where
  "char_at s i = (if i < length s then Some (s ! i) else None)"

definition re_word :: "(char \<Rightarrow> bool) \<Rightarrow> string \<Rightarrow> string \<Rightarrow> bool" where
  "re_word w x s =
     (take (length x) s = x \<and>
      word_boundary w (char_at s (length x - 1)) (char_at s (length x)))"

text \<open>\<^verbatim>\<open>\b(true|false)\b\<close>\<close>

definition re_boolean :: "(char \<Rightarrow> bool) \<Rightarrow> pattern" where
  "re_boolean w prev s =
     (if word_boundary w prev (char_at s 0) then
        (if re_word w ''true'' s then Some ''true''
         else if re_word w ''false'' s then Some ''false''
         else None)
      else None)"

text \<open>\<^verbatim>\<open>[A-Za-z_][A-Za-z0-9_]*\<close>\<close>

definition re_id :: pattern where
  "re_id prev s =
     (case s of
        c # cs \<Rightarrow>
          if letter c \<or> c = CHR ''_'' then Some (c # takeWhile word_char cs) else None
      | [] \<Rightarrow> None)"

text \<open>A pattern of one literal character, such as \<^verbatim>\<open>\{\<close> or \<^verbatim>\<open>=\<close> or \<^verbatim>\<open>\n\<close>.\<close>

definition re_char :: "char \<Rightarrow> pattern" where
  "re_char x prev s = (case s of c # cs \<Rightarrow> if c = x then Some [c] else None | [] \<Rightarrow> None)"

text \<open>The text \<open>p\<close> followed by the rest of the line: \<^verbatim>\<open>#.*\<close>, \<^verbatim>\<open>##.*\<close>, \<^verbatim>\<open>//[^\n]*\<close>.\<close>

definition re_line :: "string \<Rightarrow> pattern" where
  "re_line p prev s =
     (if take (length p) s = p
      then Some (p @ takeWhile (\<lambda>c. c \<noteq> newline) (drop (length p) s))
      else None)"

text \<open>An alternation \<^verbatim>\<open>a|b\<close> at the end of a pattern: the first that matches.\<close>

definition re_or :: "pattern \<Rightarrow> pattern \<Rightarrow> pattern" where
  "re_or a b prev s = (case a prev s of Some m \<Rightarrow> Some m | None \<Rightarrow> b prev s)"

text \<open>\<^verbatim>\<open>[ \t]+\<close> and \<^verbatim>\<open>[ \t\r]+\<close>: one or more characters of a set.\<close>

definition re_some :: "string \<Rightarrow> pattern" where
  "re_some cls prev s =
     (case takeWhile (\<lambda>c. c \<in> set cls) s of [] \<Rightarrow> None | c # cs \<Rightarrow> Some (c # cs))"

text \<open>\<^verbatim>\<open>.\<close>: any character but a newline.\<close>

definition re_any :: pattern where
  "re_any prev s = (case s of c # cs \<Rightarrow> if c \<noteq> newline then Some [c] else None | [] \<Rightarrow> None)"

subsection \<open>The master pattern and \<^verbatim>\<open>finditer\<close>\<close>

text \<open>
  \<^verbatim>\<open>'|'.join('(?P<%s>%s)' % pair for pair in token_specification)\<close>: the named groups
  are tried in the order of the list, and \<^verbatim>\<open>lastgroup\<close> is the name of the one that
  matched.
\<close>

fun first_match :: "(string \<times> pattern) list \<Rightarrow> char option \<Rightarrow> string \<Rightarrow> (string \<times> string) option" where
  "first_match [] prev s = None"
| "first_match ((name, p) # ps) prev s =
     (case p prev s of Some m \<Rightarrow> Some (name, m) | None \<Rightarrow> first_match ps prev s)"

text \<open>A match object: \<^verbatim>\<open>mo.lastgroup\<close>, \<^verbatim>\<open>mo.group()\<close>, \<^verbatim>\<open>mo.start()\<close>, \<^verbatim>\<open>mo.end()\<close>.\<close>

record match_object =
  lastgroup :: string
  group :: string
  start :: nat
  end_pos :: nat

text \<open>
  \<^verbatim>\<open>finditer\<close> yields the matches from left to right, each search starting where the
  match before ended; a position where no group matches is passed over. No group of the
  three lexers matches the empty text, so a match of \<open>k\<close> characters at \<open>c # cs\<close> leaves
  \<open>drop (k - 1) cs\<close>.
\<close>

fun finditer :: "(string \<times> pattern) list \<Rightarrow> char option \<Rightarrow> nat \<Rightarrow> string \<Rightarrow> match_object list" where
  "finditer spec prev pos [] = []"
| "finditer spec prev pos (c # cs) =
     (case first_match spec prev (c # cs) of
        None \<Rightarrow> finditer spec (Some c) (pos + 1) cs
      | Some (name, m) \<Rightarrow>
          \<lparr>lastgroup = name, group = m, start = pos, end_pos = pos + length m\<rparr>
            # finditer spec (Some (last (c # m))) (pos + length m) (drop (length m - 1) cs))"

section \<open>Strings and numbers of Python\<close>

text \<open>
  A literal value of Python, the payload of a \<^verbatim>\<open>ValueNode\<close> and of a token of
  \<^verbatim>\<open>LexerSnake.py\<close>: an \<^verbatim>\<open>int\<close>, \<^verbatim>\<open>float\<close>, \<^verbatim>\<open>str\<close> or
  \<^verbatim>\<open>bool\<close>. Floating point is not computed: \<open>PyFloat s\<close> stands for the value
  \<^verbatim>\<open>float(s)\<close>.
\<close>

datatype pyval = PyInt int | PyFloat string | PyStr string | PyBool bool

text \<open>\<^verbatim>\<open>s.strip('"')\<close> removes every leading and every trailing quote character.\<close>

definition strip :: "char \<Rightarrow> string \<Rightarrow> string" where
  "strip q s = rev (dropWhile (\<lambda>c. c = q) (rev (dropWhile (\<lambda>c. c = q) s)))"

text \<open>\<^verbatim>\<open>lexeme[1:-1]\<close>\<close>

definition slice_1_minus_1 :: "string \<Rightarrow> string" where
  "slice_1_minus_1 s = butlast (tl s)"

text \<open>
  \<^verbatim>\<open>s.isupper()\<close> of Python 3: at least one cased character, and no lower-case one.
  Below 256 the upper-case characters are \<^verbatim>\<open>A\<close> to \<^verbatim>\<open>Z\<close> and \<^verbatim>\<open>0xC0\<close> to \<^verbatim>\<open>0xDE\<close>
  without \<^verbatim>\<open>0xD7\<close>; the lower-case ones are \<^verbatim>\<open>a\<close> to \<^verbatim>\<open>z\<close>, \<^verbatim>\<open>0xAA\<close>, \<^verbatim>\<open>0xB5\<close>,
  \<^verbatim>\<open>0xBA\<close>, and \<^verbatim>\<open>0xDF\<close> to \<^verbatim>\<open>0xFF\<close> without \<^verbatim>\<open>0xF7\<close>.
\<close>

definition upper_case :: "char \<Rightarrow> bool" where
  "upper_case c =
     (c \<in> set ''ABCDEFGHIJKLMNOPQRSTUVWXYZ'' \<or>
      (0xC0 \<le> (of_char c :: nat) \<and> (of_char c :: nat) \<le> 0xDE \<and> (of_char c :: nat) \<noteq> 0xD7))"

definition lower_case :: "char \<Rightarrow> bool" where
  "lower_case c =
     (c \<in> set ''abcdefghijklmnopqrstuvwxyz'' \<or>
      (of_char c :: nat) \<in> set [0xAA, 0xB5, 0xBA] \<or>
      (0xDF \<le> (of_char c :: nat) \<and> (of_char c :: nat) \<noteq> 0xF7))"

definition isupper :: "string \<Rightarrow> bool" where
  "isupper s = (list_ex upper_case s \<and> list_all (\<lambda>c. \<not> lower_case c) s)"

definition digit_value :: "char \<Rightarrow> int" where
  "digit_value c = int (of_char c) - 48"

definition decimal :: "string \<Rightarrow> int" where
  "decimal s = foldl (\<lambda>a c. 10 * a + digit_value c) 0 s"

text \<open>
  \<^verbatim>\<open>float(lexeme) if '.' in lexeme else int(lexeme)\<close>, on the lexemes the \<^verbatim>\<open>NUMBER\<close>
  pattern produces: digits, or digits, a point and digits. On any other text the model
  raises \<^verbatim>\<open>ValueError\<close>; Python's \<^verbatim>\<open>int\<close> and \<^verbatim>\<open>float\<close> accept a few more spellings
  (a sign, surrounding blanks, underscores, an exponent), which no lexer of this
  repository produces.

  The first argument is the greatest number of digits that \<^verbatim>\<open>int\<close> converts. Python 2,
  the language of \<^verbatim>\<open>LexerSnake.py\<close>, has no limit (\<open>None\<close>). Python 3, the language of
  \<^verbatim>\<open>Analizador.py\<close>, raises \<^verbatim>\<open>ValueError\<close> on a text of more than
  \<^verbatim>\<open>sys.get_int_max_str_digits()\<close> digits, 4300 unless it is configured otherwise
  (since version 3.11), leading zeros included; \<^verbatim>\<open>float\<close> has no such limit.
\<close>

definition int_max_str_digits :: nat where
  "int_max_str_digits = 4300"

definition number_value :: "nat option \<Rightarrow> string \<Rightarrow> exn + pyval" where
  "number_value limit s =
     (if CHR ''.'' \<in> set s then
        (if re_number None s = Some s then Inr (PyFloat s) else Inl ValueError)
      else
        (if s \<noteq> [] \<and> list_all digit s \<and>
            (case limit of None \<Rightarrow> True | Some k \<Rightarrow> length s \<le> k)
         then Inr (PyInt (decimal s)) else Inl ValueError))"

text \<open>\<^verbatim>\<open>lexeme.upper()\<close> on ASCII.\<close>

definition upper_char :: "char \<Rightarrow> char" where
  "upper_char c =
     (case map_of (zip ''abcdefghijklmnopqrstuvwxyz'' ''ABCDEFGHIJKLMNOPQRSTUVWXYZ'') c of
        Some u \<Rightarrow> u
      | None \<Rightarrow> c)"

definition upper :: "string \<Rightarrow> string" where
  "upper s = map upper_char s"

section \<open>\<^verbatim>\<open>GameLexer\<close> (Analizador.py)\<close>

definition game_token_specification :: "(string \<times> pattern) list" where
  "game_token_specification =
     [(''NUMBER'', re_number),
      (''STRING'', re_string),
      (''BOOLEAN'', re_boolean word_char_unicode),
      (''ID'', re_id),
      (''LBRACE'', re_char CHR ''{''),
      (''RBRACE'', re_char CHR ''}''),
      (''LBRACKET'', re_char CHR ''[''),
      (''RBRACKET'', re_char CHR '']''),
      (''LPAREN'', re_char CHR ''(''),
      (''RPAREN'', re_char CHR '')''),
      (''EQUAL'', re_char CHR ''=''),
      (''COMMA'', re_char CHR '',''),
      (''SEMICOLON'', re_char CHR '';''),
      (''COLON'', re_char CHR '':''),
      (''COMMENT'', re_or (re_line ''##'') (re_line ''#'')),
      (''NEWLINE'', re_char newline),
      (''SKIP'', re_some [CHR '' '', tab]),
      (''MISMATCH'', re_any)]"

definition game_keywords :: "string list" where
  "game_keywords =
     [''juego'', ''game'', ''tablero'', ''piezas'', ''puntos'', ''velocidad'', ''controles'',
      ''perdiste'', ''filas'', ''columnas'', ''fondo'', ''inicio_lleno'', ''color'',
      ''rotaciones'', ''random'', ''true'', ''false'', ''pieza_inicial'', ''pieza_siguiente'',
      ''ganar_puntos'', ''eliminar_fila'', ''velocidad_progresiva'', ''aumentar_velocidad'',
      ''cada_puntos'', ''cantidad_aumento'', ''izquierda'', ''derecha'', ''caida'', ''rotar'',
      ''pausar'', ''I'', ''O'', ''T'', ''L'', ''J'', ''S'', ''Z'', ''serpiente'', ''comida'',
      ''paredes'', ''reglas'', ''assets'', ''title'', ''author'', ''version'', ''velocidad_cps'',
      ''largo_inicial'', ''crecimiento_por_comida'', ''posicion_inicial'', ''direccion_inicial'',
      ''max_activa'', ''items'', ''tipo'', ''valor_puntos'', ''respawn_ms'',
      ''evitar_sobre_serpiente'', ''evitar_paredes'', ''usar_paredes'', ''lista'',
      ''colision_pared'', ''colision_cuerpo'', ''salir_tablero'', ''wrap_edges'', ''tick_ms'',
      ''bonus_longitud_activo'', ''bonus_longitud_cada_segmentos'', ''bonus_longitud_valor'',
      ''velocidad_inicial_cps'', ''factor_aumento'', ''limite_cps'', ''arriba'', ''abajo'',
      ''serpiente'', ''cabeza'', ''comida'', ''pared'', ''simbolos'', ''charset'']"

text \<open>
  The lexer object: the counters \<^verbatim>\<open>self.line_num\<close>, \<^verbatim>\<open>self.line_start\<close>, the list
  \<^verbatim>\<open>self.errors\<close>, and the locals \<^verbatim>\<open>tokens\<close> and \<^verbatim>\<open>col\<close> of \<^verbatim>\<open>tokenize\<close>.
  \<^verbatim>\<open>mo.start() - self.line_start\<close> is never negative: \<^verbatim>\<open>line_start\<close> is the end of an
  earlier match.
\<close>

record game_lexer =
  line_num :: nat
  line_start :: nat
  lex_errors :: "message list"
  tokens_acc :: "string Token list"
  cur_col :: nat

definition game_lexer_init :: game_lexer where
  "game_lexer_init =
     \<lparr>line_num = 1, line_start = 0, lex_errors = [], tokens_acc = [], cur_col = 1\<rparr>"

text \<open>The body of the loop of \<^verbatim>\<open>GameLexer.tokenize\<close>, for one match.\<close>

definition game_step :: "match_object \<Rightarrow> game_lexer \<Rightarrow> game_lexer" where
  "game_step mo lx =
     (let kind = lastgroup mo;
          lexeme = group mo;
          c = start mo - line_start lx + 1;
          lx = lx\<lparr>cur_col := c\<rparr>
      in if kind = ''NUMBER'' \<or> kind = ''STRING'' \<or> kind = ''BOOLEAN'' then
           lx\<lparr>tokens_acc := tokens_acc lx @ [\<lparr>type = kind, lexeme = lexeme, line = line_num lx, col = c\<rparr>]\<rparr>
         else if kind = ''ID'' then
           lx\<lparr>tokens_acc := tokens_acc lx @
                [\<lparr>type = (if lexeme \<in> set game_keywords then upper lexeme else kind),
                  lexeme = lexeme, line = line_num lx, col = c\<rparr>]\<rparr>
         else if kind = ''NEWLINE'' then
           lx\<lparr>line_num := line_num lx + 1, line_start := end_pos mo\<rparr>
         else if kind = ''SKIP'' \<or> kind = ''COMMENT'' then lx
         else if kind = ''MISMATCH'' then
           lx\<lparr>lex_errors := lex_errors lx @ [LexicalError lexeme (line_num lx) c]\<rparr>
         else
           lx\<lparr>tokens_acc := tokens_acc lx @ [\<lparr>type = kind, lexeme = lexeme, line = line_num lx, col = c\<rparr>]\<rparr>)"

text \<open>
  \<^verbatim>\<open>GameLexer(code).tokenize()\<close>: the tokens returned, and \<^verbatim>\<open>lexer.errors\<close> afterwards.
\<close>

definition game_scan :: "string \<Rightarrow> game_lexer" where
  "game_scan code = fold game_step (finditer game_token_specification None 0 code) game_lexer_init"

definition game_tokenize :: "string \<Rightarrow> string Token list \<times> message list" where
  "game_tokenize code =
     (let lx = game_scan code
      in (tokens_acc lx @ [\<lparr>type = ''EOF'', lexeme = '''', line = line_num lx, col = cur_col lx\<rparr>],
          lex_errors lx))"

section \<open>\<^verbatim>\<open>TetrisLexer\<close> (main.py)\<close>

definition tetris_token_specification :: "(string \<times> pattern) list" where
  "tetris_token_specification =
     [(''NUMBER'', re_number),
      (''STRING'', re_string),
      (''BOOLEAN'', re_boolean word_char),
      (''ID'', re_id),
      (''LBRACE'', re_char CHR ''{''),
      (''RBRACE'', re_char CHR ''}''),
      (''LBRACKET'', re_char CHR ''[''),
      (''RBRACKET'', re_char CHR '']''),
      (''LPAREN'', re_char CHR ''(''),
      (''RPAREN'', re_char CHR '')''),
      (''EQUAL'', re_char CHR ''=''),
      (''COMMA'', re_char CHR '',''),
      (''NEWLINE'', re_char newline),
      (''SKIP'', re_some [CHR '' '', tab]),
      (''COMMENT'', re_line ''#''),
      (''MISMATCH'', re_any)]"

definition tetris_keywords :: "string list" where
  "tetris_keywords =
     [''juego'', ''tablero'', ''piezas'', ''rotaciones'', ''perdiste'',
      ''eliminacion_filas'', ''puntos'', ''velocidad'', ''controles'', ''random'']"

text \<open>
  \<^verbatim>\<open>TetrisLexer.tokenize\<close> has no \<^verbatim>\<open>col = 1\<close> before its loop: the local \<^verbatim>\<open>col\<close> is
  unbound (\<open>None\<close>) until the body of the loop has run once.
\<close>

record tetris_lexer =
  t_line_num :: nat
  t_line_start :: nat
  t_tokens :: "string Token list"
  t_col :: "nat option"

definition tetris_lexer_init :: tetris_lexer where
  "tetris_lexer_init = \<lparr>t_line_num = 1, t_line_start = 0, t_tokens = [], t_col = None\<rparr>"

definition tetris_step :: "match_object \<Rightarrow> tetris_lexer \<Rightarrow> exn + tetris_lexer" where
  "tetris_step mo lx =
     (let kind = lastgroup mo;
          lexeme = group mo;
          c = start mo - t_line_start lx + 1;
          lx = lx\<lparr>t_col := Some c\<rparr>
      in if kind = ''NUMBER'' \<or> kind = ''STRING'' \<or> kind = ''BOOLEAN'' then
           Inr (lx\<lparr>t_tokens := t_tokens lx @
                  [\<lparr>type = kind, lexeme = lexeme, line = t_line_num lx, col = c\<rparr>]\<rparr>)
         else if kind = ''ID'' then
           Inr (lx\<lparr>t_tokens := t_tokens lx @
                  [\<lparr>type = (if lexeme \<in> set tetris_keywords then upper lexeme else ''ID''),
                    lexeme = lexeme, line = t_line_num lx, col = c\<rparr>]\<rparr>)
         else if kind = ''NEWLINE'' then
           Inr (lx\<lparr>t_line_num := t_line_num lx + 1, t_line_start := end_pos mo\<rparr>)
         else if kind = ''SKIP'' \<or> kind = ''COMMENT'' then Inr lx
         else if kind = ''MISMATCH'' then
           Inl (RuntimeError (UnexpectedChar lexeme (t_line_num lx)))
         else
           Inr (lx\<lparr>t_tokens := t_tokens lx @
                  [\<lparr>type = kind, lexeme = lexeme, line = t_line_num lx, col = c\<rparr>]\<rparr>))"

fun tetris_loop :: "match_object list \<Rightarrow> tetris_lexer \<Rightarrow> exn + tetris_lexer" where
  "tetris_loop [] lx = Inr lx"
| "tetris_loop (mo # mos) lx =
     (case tetris_step mo lx of Inl e \<Rightarrow> Inl e | Inr lx' \<Rightarrow> tetris_loop mos lx')"

text \<open>
  \<^verbatim>\<open>TetrisLexer(code).tokenize()\<close>. The last statement reads \<^verbatim>\<open>col\<close>, which raises
  \<^verbatim>\<open>UnboundLocalError\<close> when it is unbound.
\<close>

definition tetris_tokenize :: "string \<Rightarrow> exn + string Token list" where
  "tetris_tokenize code =
     (case tetris_loop (finditer tetris_token_specification None 0 code) tetris_lexer_init of
        Inl e \<Rightarrow> Inl e
      | Inr lx \<Rightarrow>
          (case t_col lx of
             None \<Rightarrow> Inl UnboundLocalError
           | Some c \<Rightarrow>
               Inr (t_tokens lx @ [\<lparr>type = ''EOF'', lexeme = [], line = t_line_num lx, col = c\<rparr>])))"

section \<open>\<^verbatim>\<open>SnakeLexer\<close> (LexerSnake.py)\<close>

definition snake_token_specification :: "(string \<times> pattern) list" where
  "snake_token_specification =
     [(''NUMBER'', re_number),
      (''STRING'', re_string_plain),
      (''BOOLEAN'', re_boolean word_char),
      (''ID'', re_id),
      (''LBRACE'', re_char CHR ''{''),
      (''RBRACE'', re_char CHR ''}''),
      (''LBRACKET'', re_char CHR ''[''),
      (''RBRACKET'', re_char CHR '']''),
      (''LPAREN'', re_char CHR ''(''),
      (''RPAREN'', re_char CHR '')''),
      (''EQUAL'', re_char CHR ''=''),
      (''COLON'', re_char CHR '':''),
      (''COMMA'', re_char CHR '',''),
      (''SEMI'', re_char CHR '';''),
      (''NEWLINE'', re_char newline),
      (''SKIP'', re_some [CHR '' '', tab, carriage_return]),
      (''COMMENT'', re_or (re_line ''//'') (re_line ''#'')),
      (''MISMATCH'', re_any)]"

definition snake_keywords :: "string list" where
  "snake_keywords =
     [''game'', ''juego'', ''title'', ''author'', ''version'', ''tablero'', ''serpiente'',
      ''comida'', ''paredes'', ''perdiste'', ''reglas'', ''puntos'', ''velocidad'',
      ''controles'', ''hud'', ''assets'', ''audio'', ''movimientos_permitidos'',
      ''niveles'', ''filas'', ''columnas'', ''fondo'', ''celda_px'', ''inicio_lleno'',
      ''bordes_solidos'', ''velocidad_cps'', ''largo_inicial'', ''crecimiento_por_comida'',
      ''color'', ''posicion_inicial'', ''direccion_inicial'', ''x'', ''y'',
      ''colores_segmentos'', ''cola_elastica'', ''max_activa'', ''items'', ''tipo'',
      ''valor_puntos'', ''respawn_ms'', ''evitar_sobre_serpiente'', ''evitar_paredes'',
      ''usar_paredes'', ''lista'', ''colision_pared'', ''colision_cuerpo'',
      ''salir_tablero'', ''tiempo_agotado'', ''wrap_edges'', ''tick_ms'',
      ''pausa_permitida'', ''puntos_iniciales'', ''ganar_puntos'', ''perder_puntos'',
      ''bonus_longitud_activo'', ''bonus_longitud_cada_segmentos'',
      ''bonus_longitud_valor'', ''combo_tiempo_activo'', ''combo_tiempo_ventana_ms'',
      ''combo_tiempo_bonus'', ''multiplicadores'', ''racha_sin_choques_activo'',
      ''racha_umbral'', ''racha_factor'', ''velocidad_inicial_cps'',
      ''velocidad_progresiva'', ''aumentar_velocidad'', ''cada_puntos'', ''factor_aumento'',
      ''limite_cps'', ''control'', ''mantener_tick_constante'', ''input_buffer_ms'', ''id'',
      ''objetivo_puntos'', ''cps_min'', ''cps_max'', ''paredes_extra'', ''arriba'',
      ''abajo'', ''izquierda'', ''derecha'', ''pausar'', ''reiniciar'', ''mostrar_puntaje'',
      ''mostrar_velocidad'', ''mostrar_nivel'', ''posiciones'', ''puntaje_x'',
      ''puntaje_y'', ''velocidad_x'', ''velocidad_y'', ''nivel_x'', ''nivel_y'',
      ''charset'', ''simbolos'', ''cabeza'', ''pared'', ''fondo'', ''paleta'', ''verde'',
      ''verde_oscuro'', ''rojo'', ''amarillo'', ''morado'', ''negro'', ''blanco'',
      ''habilitado'', ''sonidos'', ''comer'', ''chocar'', ''subir_nivel'',
      ''volumen_global'']"

record snake_lexer =
  s_line_num :: nat
  s_line_start :: nat
  s_tokens :: "pyval Token list"
  s_col :: nat

definition snake_lexer_init :: snake_lexer where
  "snake_lexer_init = \<lparr>s_line_num = 1, s_line_start = 0, s_tokens = [], s_col = 1\<rparr>"

text \<open>\<^verbatim>\<open>tokens.append(Token(kind, value, self.line_num, col))\<close>\<close>

definition snake_append :: "snake_lexer \<Rightarrow> string \<Rightarrow> pyval \<Rightarrow> snake_lexer" where
  "snake_append lx kind v =
     lx\<lparr>s_tokens := s_tokens lx @ [\<lparr>type = kind, lexeme = v, line = s_line_num lx, col = s_col lx\<rparr>]\<rparr>"

text \<open>The body of the loop of \<^verbatim>\<open>SnakeLexer.tokenize\<close>, for one match.\<close>

definition snake_step :: "match_object \<Rightarrow> snake_lexer \<Rightarrow> exn + snake_lexer" where
  "snake_step mo lx0 =
     (let kind = lastgroup mo;
          lexeme = group mo;
          lx = lx0\<lparr>s_col := start mo - s_line_start lx0 + 1\<rparr>
      in if kind = ''NEWLINE'' then
           Inr (lx\<lparr>s_line_num := s_line_num lx + 1, s_line_start := end_pos mo\<rparr>)
         else if kind = ''SKIP'' \<or> kind = ''COMMENT'' then Inr lx
         else if kind = ''STRING'' then
           Inr (snake_append lx ''STRING'' (PyStr (slice_1_minus_1 lexeme)))
         else if kind = ''NUMBER'' then
           (case number_value None lexeme of
              Inl e \<Rightarrow> Inl e
            | Inr v \<Rightarrow> Inr (snake_append lx ''NUMBER'' v))
         else if kind = ''BOOLEAN'' then
           Inr (snake_append lx ''BOOL'' (PyBool (lexeme = ''true'')))
         else if kind = ''ID'' then
           (if lexeme = ''game'' \<or> lexeme = ''juego'' then
              Inr (snake_append lx ''GAME'' (PyStr lexeme))
            else if lexeme \<in> set snake_keywords then
              Inr (snake_append lx (upper lexeme) (PyStr lexeme))
            else Inr (snake_append lx ''ID'' (PyStr lexeme)))
         else if kind = ''MISMATCH'' then
           Inl (RuntimeError (UnexpectedCharAt lexeme (s_line_num lx) (s_col lx)))
         else Inr (snake_append lx kind (PyStr lexeme)))"

fun snake_loop :: "match_object list \<Rightarrow> snake_lexer \<Rightarrow> exn + snake_lexer" where
  "snake_loop [] lx = Inr lx"
| "snake_loop (mo # mos) lx =
     (case snake_step mo lx of Inl e \<Rightarrow> Inl e | Inr lx' \<Rightarrow> snake_loop mos lx')"

definition snake_tokenize :: "string \<Rightarrow> exn + pyval Token list" where
  "snake_tokenize code =
     (case snake_loop (finditer snake_token_specification None 0 code) snake_lexer_init of
        Inl e \<Rightarrow> Inl e
      | Inr lx \<Rightarrow>
          Inr (s_tokens lx @
                 [\<lparr>type = ''EOF'', lexeme = PyStr [], line = s_line_num lx, col = s_col lx\<rparr>]))"

section \<open>The syntax tree (Analizador.py)\<close>

text \<open>
  One constructor per node class, with the attributes in the order in which
  \<^verbatim>\<open>__init__\<close> assigns them. Python checks no types: the body of a \<^verbatim>\<open>GameNode\<close> and
  the value of an \<^verbatim>\<open>AssignNode\<close> are nodes of any class.
\<close>

datatype node =
    GameNode "string option" node
  | BlockNode string "node list"
  | AssignNode string node
  | ListNode "node list"
  | ObjectNode "(string \<times> node) list"
  | FunctionNode string "node list"
  | ValueNode pyval

text \<open>\<^verbatim>\<open>block.statements.append(node)\<close> and \<^verbatim>\<open>subblock.name = key\<close>\<close>

fun append_statement :: "node \<Rightarrow> node \<Rightarrow> node" where
  "append_statement (BlockNode name statements) s = BlockNode name (statements @ [s])"
| "append_statement b s = b"

fun set_name :: "string \<Rightarrow> node \<Rightarrow> node" where
  "set_name key (BlockNode name statements) = BlockNode key statements"
| "set_name key b = b"

section \<open>\<^verbatim>\<open>Parser\<close> (Analizador.py)\<close>

record parser =
  tokens :: "string Token list"
  pos :: nat
  current_token :: "string Token option"
  errors :: "message list"

text \<open>
  \<^verbatim>\<open>Parser(tokens)\<close>: \<^verbatim>\<open>self.tokens[self.pos]\<close> raises \<^verbatim>\<open>IndexError\<close> on an empty
  list.
\<close>

definition Parser :: "string Token list \<Rightarrow> exn + parser" where
  "Parser toks =
     (case toks of
        [] \<Rightarrow> Inl IndexError
      | t # ts \<Rightarrow> Inr \<lparr>tokens = toks, pos = 0, current_token = Some t, errors = []\<rparr>)"

text \<open>
  A method of the parser returns a value and leaves the parser changed, or raises an
  exception and leaves the parser changed. The recursion of the methods is bounded by
  fuel; \<open>OutOfFuel\<close> is the outcome of a run the fuel did not suffice for.
\<close>

datatype 'a outcome = Return 'a parser | Raise exn parser | OutOfFuel

fun then_do :: "'a outcome \<Rightarrow> ('a \<Rightarrow> parser \<Rightarrow> 'b outcome) \<Rightarrow> 'b outcome" where
  "then_do (Return a p) f = f a p"
| "then_do (Raise e p) f = Raise e p"
| "then_do OutOfFuel f = OutOfFuel"

definition add_error :: "parser \<Rightarrow> message \<Rightarrow> parser" where
  "add_error p m = p\<lparr>errors := errors p @ [m]\<rparr>"

definition advance :: "parser \<Rightarrow> parser" where
  "advance p =
     (let n = pos p + 1
      in p\<lparr>pos := n,
           current_token := (if n < length (tokens p) then Some (tokens p ! n) else None)\<rparr>)"

definition expect :: "string \<Rightarrow> parser \<Rightarrow> unit outcome" where
  "expect token_type p =
     (case current_token p of
        None \<Rightarrow> Raise ParserError (add_error p (ExpectedButEnd token_type))
      | Some t \<Rightarrow>
          if type t \<noteq> token_type
          then Raise ParserError
                 (add_error p (ExpectedButFound (line t) (col t) token_type (lexeme t)))
          else Return () (advance p))"

definition peek :: "parser \<Rightarrow> string Token option" where
  "peek p = (if pos p + 1 < length (tokens p) then Some (tokens p ! (pos p + 1)) else None)"

text \<open>\<^verbatim>\<open>self.current_token and self.current_token.type == k\<close>\<close>

definition current_is :: "string \<Rightarrow> parser \<Rightarrow> bool" where
  "current_is k p = (case current_token p of None \<Rightarrow> False | Some t \<Rightarrow> type t = k)"

text \<open>\<^verbatim>\<open>if self.current_token and self.current_token.type == k: self.advance()\<close>\<close>

definition skip_optional :: "string \<Rightarrow> parser \<Rightarrow> parser" where
  "skip_optional k p = (if current_is k p then advance p else p)"

text \<open>
  The methods \<^verbatim>\<open>parse_value\<close>, \<^verbatim>\<open>parse_list\<close>, \<^verbatim>\<open>parse_object\<close>,
  \<^verbatim>\<open>parse_function\<close> and \<^verbatim>\<open>parse_block\<close>; each \<^verbatim>\<open>while\<close> loop is a function of its
  own, with the list or block built so far as an argument.
\<close>

function (sequential) parse_value :: "nat \<Rightarrow> parser \<Rightarrow> node outcome"
  and parse_list :: "nat \<Rightarrow> parser \<Rightarrow> node outcome"
  and list_loop :: "nat \<Rightarrow> parser \<Rightarrow> node list \<Rightarrow> node list outcome"
  and parse_object :: "nat \<Rightarrow> parser \<Rightarrow> node outcome"
  and object_loop :: "nat \<Rightarrow> parser \<Rightarrow> (string \<times> node) list \<Rightarrow> (string \<times> node) list outcome"
  and parse_function :: "nat \<Rightarrow> parser \<Rightarrow> node outcome"
  and function_loop :: "nat \<Rightarrow> string \<Rightarrow> parser \<Rightarrow> node list \<Rightarrow> node list outcome"
where
  "parse_value 0 p = OutOfFuel"
| "parse_value (Suc n) p =
     (case current_token p of
        None \<Rightarrow> Raise ParserError (add_error p UnexpectedEndOfInput)
      | Some tok \<Rightarrow>
          if type tok = ''NUMBER'' then
            (case number_value (Some int_max_str_digits) (lexeme tok) of
               Inl e \<Rightarrow> Raise e p
             | Inr v \<Rightarrow> Return (ValueNode v) (advance p))
          else if type tok = ''STRING'' then
            Return (ValueNode (PyStr (strip quote (lexeme tok)))) (advance p)
          else if type tok = ''BOOLEAN'' then
            Return (ValueNode (PyBool (lexeme tok = ''true''))) (advance p)
          else if type tok = ''LBRACKET'' then parse_list n p
          else if type tok = ''LBRACE'' then parse_object n p
          else if type tok = ''ID'' \<or> isupper (type tok) then
            (if (case peek p of None \<Rightarrow> False | Some t \<Rightarrow> type t = ''LPAREN'')
             then parse_function n p
             else Return (ValueNode (PyStr (lexeme tok))) (advance p))
          else
            Return (ValueNode (PyStr (lexeme tok)))
              (advance (add_error p (UnexpectedValue (lexeme tok) (line tok) (col tok)))))"
| "parse_list 0 p = OutOfFuel"
| "parse_list (Suc n) p =
     then_do (expect ''LBRACKET'' p) (\<lambda>_ p1.
     then_do (list_loop n p1 []) (\<lambda>elements p2.
     then_do (expect ''RBRACKET'' p2) (\<lambda>_ p3.
     Return (ListNode elements) p3)))"
| "list_loop 0 p elements = OutOfFuel"
| "list_loop (Suc n) p elements =
     (case current_token p of
        None \<Rightarrow> Return elements p
      | Some t \<Rightarrow>
          if type t = ''RBRACKET'' then Return elements p
          else
            then_do (parse_value n p) (\<lambda>v p1.
            list_loop n (skip_optional ''COMMA'' p1) (elements @ [v])))"
| "parse_object 0 p = OutOfFuel"
| "parse_object (Suc n) p =
     then_do (expect ''LBRACE'' p) (\<lambda>_ p1.
     then_do (object_loop n p1 []) (\<lambda>pairs p2.
     then_do (expect ''RBRACE'' p2) (\<lambda>_ p3.
     Return (ObjectNode pairs) p3)))"
| "object_loop 0 p pairs = OutOfFuel"
| "object_loop (Suc n) p pairs =
     (case current_token p of
        None \<Rightarrow> Return pairs p
      | Some t \<Rightarrow>
          if type t = ''RBRACE'' then Return pairs p
          else
            then_do (expect ''ID'' p) (\<lambda>_ p1.
            then_do (expect ''COLON'' p1) (\<lambda>_ p2.
            then_do (parse_value n p2) (\<lambda>v p3.
            object_loop n (skip_optional ''COMMA'' p3) (pairs @ [(lexeme t, v)])))))"
| "parse_function 0 p = OutOfFuel"
| "parse_function (Suc n) p =
     (case current_token p of
        None \<Rightarrow> Raise AttributeError p
      | Some t \<Rightarrow>
          then_do (expect ''LPAREN'' (advance p)) (\<lambda>_ p1.
          then_do (function_loop n (lexeme t) p1 []) (\<lambda>args p2.
          then_do (expect ''RPAREN'' p2) (\<lambda>_ p3.
          Return (FunctionNode (lexeme t) args) p3))))"
| "function_loop 0 name p args = OutOfFuel"
| "function_loop (Suc n) name p args =
     (case current_token p of
        None \<Rightarrow> Return args p
      | Some t \<Rightarrow>
          if type t = ''RPAREN'' then Return args p
          else
            then_do (parse_value n p) (\<lambda>v p1.
              let p2 = skip_optional ''COMMA'' p1
              in (case current_token p2 of
                    None \<Rightarrow> Raise ParserError (add_error p2 (UnclosedParen name))
                  | Some u \<Rightarrow> function_loop n name p2 (args @ [v]))))"
  by pat_completeness auto
termination
  by (relation "measure (\<lambda>x. case x of
        Inl (Inl (n, p)) \<Rightarrow> n
      | Inl (Inr (Inl (n, p))) \<Rightarrow> n
      | Inl (Inr (Inr (n, p, e))) \<Rightarrow> n
      | Inr (Inl (Inl (n, p))) \<Rightarrow> n
      | Inr (Inl (Inr (n, p, e))) \<Rightarrow> n
      | Inr (Inr (Inl (n, p))) \<Rightarrow> n
      | Inr (Inr (Inr (n, nm, p, e))) \<Rightarrow> n)") auto

fun parse_block :: "nat \<Rightarrow> parser \<Rightarrow> node outcome"
  and block_loop :: "nat \<Rightarrow> parser \<Rightarrow> node \<Rightarrow> node outcome"
where
  "parse_block 0 p = OutOfFuel"
| "parse_block (Suc n) p = block_loop n p (BlockNode ''block'' [])"
| "block_loop 0 p block = OutOfFuel"
| "block_loop (Suc n) p block =
     (case current_token p of
        None \<Rightarrow> Return block p
      | Some t \<Rightarrow>
          if type t = ''RBRACE'' \<or> type t = ''EOF'' then Return block p
          else if type t = ''ID'' \<or> isupper (type t) then
            (let key = lexeme t; p1 = advance p
             in if current_is ''EQUAL'' p1 then
                  then_do (parse_value n (advance p1)) (\<lambda>v p2.
                  block_loop n (skip_optional ''SEMICOLON'' p2)
                    (append_statement block (AssignNode key v)))
                else if current_is ''LBRACE'' p1 then
                  then_do (parse_block n (advance p1)) (\<lambda>subblock p2.
                  then_do (expect ''RBRACE'' p2) (\<lambda>_ p3.
                  block_loop n p3 (append_statement block (set_name key subblock))))
                else
                  (case current_token p1 of
                     None \<Rightarrow> Raise AttributeError p1
                   | Some t1 \<Rightarrow>
                       block_loop n
                         (advance (add_error p1 (ExpectedEqualOrBrace key (line t1) (col t1))))
                         block))
          else block_loop n (advance p) block)"

text \<open>
  \<^verbatim>\<open>parse_game\<close>. The name is the lexeme of a \<^verbatim>\<open>STRING\<close> or \<^verbatim>\<open>ID\<close> token with its
  quotes stripped, or \<^verbatim>\<open>None\<close>.
\<close>

definition parse_game :: "nat \<Rightarrow> parser \<Rightarrow> node outcome" where
  "parse_game n p =
     (case current_token p of
        None \<Rightarrow> Raise AttributeError p
      | Some t \<Rightarrow>
          if type t \<noteq> ''GAME'' \<and> type t \<noteq> ''JUEGO''
          then Raise ParserError (add_error p MustStartWithGame)
          else
            (let p1 = advance p;
                 named = (case current_token p1 of
                            None \<Rightarrow> False
                          | Some u \<Rightarrow> type u = ''STRING'' \<or> type u = ''ID'');
                 name = (case current_token p1 of
                           None \<Rightarrow> None
                         | Some u \<Rightarrow> if named then Some (strip quote (lexeme u)) else None);
                 p2 = (if named then advance p1 else p1)
             in then_do (expect ''LBRACE'' p2) (\<lambda>_ p3.
                then_do (parse_block n p3) (\<lambda>body p4.
                then_do (expect ''RBRACE'' p4) (\<lambda>_ p5.
                Return (GameNode name body) p5)))))"

text \<open>
  \<^verbatim>\<open>parse\<close> catches \<^verbatim>\<open>ParserError\<close> and returns \<^verbatim>\<open>None\<close>; any other exception leaves
  it. Three units of fuel for each token, and three more, suffice for every token list
  (\<open>parse_game_fuel\<close> below).
\<close>

definition fuel :: "parser \<Rightarrow> nat" where
  "fuel p = 3 * length (tokens p) + 3"

definition parse :: "parser \<Rightarrow> node option outcome" where
  "parse p =
     (case parse_game (fuel p) p of
        Return g p' \<Rightarrow> Return (Some g) p'
      | Raise e p' \<Rightarrow> if e = ParserError then Return None p' else Raise e p'
      | OutOfFuel \<Rightarrow> OutOfFuel)"

text \<open>
  What a caller sees of a call: the value returned, if the call returned, and
  \<^verbatim>\<open>parser.errors\<close> after it.
\<close>

fun returned :: "'a outcome \<Rightarrow> 'a option" where
  "returned (Return a p) = Some a"
| "returned (Raise e p) = None"
| "returned OutOfFuel = None"

fun syntax_errors :: "'a outcome \<Rightarrow> message list" where
  "syntax_errors (Return a p) = errors p"
| "syntax_errors (Raise e p) = errors p"
| "syntax_errors OutOfFuel = []"

text \<open>
  The driver of \<^verbatim>\<open>Analizador.py\<close>, without its printing: \<^verbatim>\<open>lexer.errors\<close>, and then
  either the tree that \<^verbatim>\<open>Parser(tokens).parse()\<close> returned (\<^verbatim>\<open>None\<close> after a
  \<^verbatim>\<open>ParserError\<close>) with \<^verbatim>\<open>parser.errors\<close>, or the exception that left the constructor
  or \<^verbatim>\<open>parse\<close>.
\<close>

datatype run = Parsed "node option" "message list" | Uncaught exn | Unfinished

definition run_parser :: "string Token list \<Rightarrow> run" where
  "run_parser toks =
     (case Parser toks of
        Inl e \<Rightarrow> Uncaught e
      | Inr p \<Rightarrow>
          (case parse p of
             Return ast p' \<Rightarrow> Parsed ast (errors p')
           | Raise e p' \<Rightarrow> Uncaught e
           | OutOfFuel \<Rightarrow> Unfinished))"

definition analyse :: "string \<Rightarrow> message list \<times> run" where
  "analyse code = (case game_tokenize code of (toks, lexical) \<Rightarrow> (lexical, run_parser toks))"

section \<open>\<^verbatim>\<open>to_dict\<close> (Analizador.py)\<close>

text \<open>
  The values \<^verbatim>\<open>to_dict\<close> builds: \<^verbatim>\<open>None\<close>, a literal, a list, a dictionary in the
  order of insertion, and an object that was put into the result as it is.
\<close>

datatype plain =
    NoneValue
  | Literal pyval
  | Sequence "plain list"
  | Dict "(string \<times> plain) list"
  | Instance node

text \<open>\<^verbatim>\<open>d[k] = v\<close>: a key already there keeps its place and takes the new value.\<close>

fun dict_set :: "(string \<times> plain) list \<Rightarrow> string \<Rightarrow> plain \<Rightarrow> (string \<times> plain) list" where
  "dict_set [] k v = [(k, v)]"
| "dict_set ((k', v') # d) k v = (if k' = k then (k, v) # d else (k', v') # dict_set d k v)"

text \<open>
  \<^verbatim>\<open>isinstance(v, Node)\<close>: every node class is declared as a subclass of \<^verbatim>\<open>Node\<close> but
  \<^verbatim>\<open>ObjectNode\<close>, which is declared \<^verbatim>\<open>class ObjectNode:\<close>.
\<close>

fun is_Node :: "node \<Rightarrow> bool" where
  "is_Node (ObjectNode pairs) = False"
| "is_Node n = True"

text \<open>
  \<^verbatim>\<open>Node.to_dict\<close> goes through \<^verbatim>\<open>self.__dict__\<close> after the entry \<^verbatim>\<open>type\<close>, which holds
  the name of the class: a list is mapped element by element, with \<^verbatim>\<open>to_dict\<close> on the
  elements that are instances of \<^verbatim>\<open>Node\<close>; an attribute that is an instance of
  \<^verbatim>\<open>Node\<close> is replaced by its \<^verbatim>\<open>to_dict\<close>; anything else is stored as it is.
  \<^verbatim>\<open>ObjectNode.to_dict\<close> is a dictionary comprehension over the pairs, with \<^verbatim>\<open>to_dict\<close>
  on every value that has the method, which every node has.
\<close>

fun to_dict :: "node \<Rightarrow> plain" where
  "to_dict (GameNode name body) =
     Dict [(''type'', Literal (PyStr ''GameNode'')),
           (''name'', (case name of None \<Rightarrow> NoneValue | Some s \<Rightarrow> Literal (PyStr s))),
           (''body'', (if is_Node body then to_dict body else Instance body))]"
| "to_dict (BlockNode name statements) =
     Dict [(''type'', Literal (PyStr ''BlockNode'')),
           (''name'', Literal (PyStr name)),
           (''statements'',
              Sequence (map (\<lambda>i. if is_Node i then to_dict i else Instance i) statements))]"
| "to_dict (AssignNode key v) =
     Dict [(''type'', Literal (PyStr ''AssignNode'')),
           (''key'', Literal (PyStr key)),
           (''value'', (if is_Node v then to_dict v else Instance v))]"
| "to_dict (ListNode items) =
     Dict [(''type'', Literal (PyStr ''ListNode'')),
           (''items'', Sequence (map (\<lambda>i. if is_Node i then to_dict i else Instance i) items))]"
| "to_dict (ObjectNode pairs) =
     Dict (foldl (\<lambda>d kv. dict_set d (fst kv) (to_dict (snd kv))) [] pairs)"
| "to_dict (FunctionNode name args) =
     Dict [(''type'', Literal (PyStr ''FunctionNode'')),
           (''name'', Literal (PyStr name)),
           (''args'', Sequence (map (\<lambda>i. if is_Node i then to_dict i else Instance i) args))]"
| "to_dict (ValueNode v) =
     Dict [(''type'', Literal (PyStr ''ValueNode'')), (''value'', Literal v)]"

section \<open>Invariant and measure of the parser\<close>

text \<open>
  The constructor and \<^verbatim>\<open>advance\<close> keep \<^verbatim>\<open>current_token\<close> equal to the token at
  \<^verbatim>\<open>pos\<close>, or \<^verbatim>\<open>None\<close> when \<^verbatim>\<open>pos\<close> is past the last token.
\<close>

definition wf_parser :: "parser \<Rightarrow> bool" where
  "wf_parser p =
     (current_token p = (if pos p < length (tokens p) then Some (tokens p ! pos p) else None))"

text \<open>The number of tokens from \<^verbatim>\<open>pos\<close> on.\<close>

definition remaining :: "parser \<Rightarrow> nat" where
  "remaining p = length (tokens p) - pos p"

text \<open>A call left the parser at least \<open>k\<close> tokens further on in the same token list.\<close>

definition moved :: "nat \<Rightarrow> parser \<Rightarrow> parser \<Rightarrow> bool" where
  "moved k p q = (wf_parser q \<and> tokens q = tokens p \<and> pos p + k \<le> pos q)"

text \<open>
  Every \<^verbatim>\<open>NUMBER\<close> token of the list has a lexeme that \<^verbatim>\<open>int\<close> or \<^verbatim>\<open>float\<close> of Python 3
  converts: a match of the number pattern that has a point or at most 4300 digits.
\<close>

definition valid_numbers :: "string Token list \<Rightarrow> bool" where
  "valid_numbers toks =
     list_all (\<lambda>t. type t \<noteq> ''NUMBER'' \<or>
                    (case number_value (Some int_max_str_digits) (lexeme t) of
                       Inl e \<Rightarrow> False
                     | Inr v \<Rightarrow> True)) toks"


section \<open>The position of the \<^verbatim>\<open>EOF\<close> token\<close>

text \<open>
  The line and the column that the amended claim C3 gives the \<^verbatim>\<open>EOF\<close> token, as
  functions of the matches of the scan, to be compared with what the three \<^verbatim>\<open>tokenize\<close>
  compute. The line is 1 plus the number of matches of \<^verbatim>\<open>NEWLINE\<close>. The column is that of
  the last match: 1 plus the distance from the end of the last \<^verbatim>\<open>NEWLINE\<close> match before it
  (from the start of the text, if there is none) to its start; it is 1 when the scan
  has no match.
\<close>

definition newlines :: "match_object list \<Rightarrow> match_object list" where
  "newlines ms = filter (\<lambda>mo. lastgroup mo = ''NEWLINE'') ms"

definition eof_line :: "match_object list \<Rightarrow> nat" where
  "eof_line ms = 1 + length (newlines ms)"

definition line_start_after :: "match_object list \<Rightarrow> nat" where
  "line_start_after ms = (case rev (newlines ms) of [] \<Rightarrow> 0 | mo # earlier \<Rightarrow> end_pos mo)"

definition eof_col :: "match_object list \<Rightarrow> nat" where
  "eof_col ms =
     (case rev ms of
        [] \<Rightarrow> 1
      | mo # earlier \<Rightarrow> start mo - line_start_after (rev earlier) + 1)"

section \<open>The calls of a run of the parser\<close>



text \<open>How a call ends, when it does not return: with an exception, or out of fuel.\<close>

datatype stop = Raised exn parser | Starved







section \<open>The lexers: properties\<close>

lemma first_match_source:
  "first_match spec prev s = Some (name, m) \<Longrightarrow> \<exists>p. (name, p) \<in> set spec \<and> p prev s = Some m"
  by (induction spec) (auto split: option.splits)

lemma first_match_some:
  "(name, p) \<in> set spec \<Longrightarrow> p prev s = Some m \<Longrightarrow> first_match spec prev s \<noteq> None"
  by (induction spec) (auto split: option.splits)

text \<open>Every match object of \<open>finditer\<close> is a match of the master pattern somewhere.\<close>

lemma finditer_source:
  "mo \<in> set (finditer spec prev off s) \<Longrightarrow>
     \<exists>prev' s'. first_match spec prev' s' = Some (lastgroup mo, group mo)"
proof (induction spec prev off s rule: finditer.induct)
  case (1 spec prev off)
  then show ?case by simp
next
  case (2 spec prev off c cs)
  show ?case
  proof (cases "first_match spec prev (c # cs)")
    case None
    with 2 show ?thesis by simp
  next
    case (Some a)
    obtain name m where a: "a = (name, m)" by (cases a)
    let ?head = "\<lparr>lastgroup = name, group = m, start = off, end_pos = off + length m\<rparr>"
    let ?rest = "finditer spec (Some (last (c # m))) (off + length m) (drop (length m - 1) cs)"
    from "2.prems" Some a have "mo = ?head \<or> mo \<in> set ?rest" by simp
    then show ?thesis
    proof
      assume "mo = ?head"
      with Some a have "first_match spec prev (c # cs) = Some (lastgroup mo, group mo)" by simp
      then show ?thesis by blast
    next
      assume "mo \<in> set ?rest"
      with "2.IH"(2) [OF Some a [symmetric]] show ?thesis by simp
    qed
  qed
qed

text \<open>
  Where the catch-all and the newline pattern are both in the specification, every
  position of a text has a match, so a text that is not empty has a first match object.
\<close>

lemma finditer_not_empty:
  assumes "(mis, re_any) \<in> set spec" and "(nl, re_char newline) \<in> set spec"
  shows "finditer spec prev off (c # cs) \<noteq> []"
proof -
  have "first_match spec prev (c # cs) \<noteq> None"
  proof (cases "c = newline")
    case True
    then have "re_char newline prev (c # cs) = Some [c]" by (simp add: re_char_def)
    with assms(2) show ?thesis by (rule first_match_some)
  next
    case False
    then have "re_any prev (c # cs) = Some [c]" by (simp add: re_any_def)
    with assms(1) show ?thesis by (rule first_match_some)
  qed
  then show ?thesis by (auto split: option.splits)
qed

lemma digit_not_point: "digit c \<Longrightarrow> c \<noteq> CHR ''.''"
  by (auto simp: digit_def)

text \<open>
  \<^verbatim>\<open>int\<close> and \<^verbatim>\<open>float\<close> do not raise on a match of the number pattern, unless it is a
  match without a point that has more digits than \<^verbatim>\<open>int\<close> converts.
\<close>

lemma re_number_valid:
  assumes "re_number prev s = Some m"
    and "case limit of None \<Rightarrow> True | Some k \<Rightarrow> CHR ''.'' \<in> set m \<or> length m \<le> k"
  shows "\<exists>v. number_value limit m = Inr v"
proof -
  let ?ds = "takeWhile digit s"
  from assms have ne: "?ds \<noteq> []" by (auto simp: re_number_def split: list.splits)
  have alld: "list_all digit ?ds" by (simp add: list_all_iff) (meson set_takeWhileD)
  have nop: "CHR ''.'' \<notin> set ?ds" using digit_not_point by (metis set_takeWhileD)
  from assms consider (int) "m = ?ds"
    | (real) r where "dropWhile digit s = CHR ''.'' # r" "takeWhile digit r \<noteq> []"
        "m = ?ds @ CHR ''.'' # takeWhile digit r"
    by (auto simp: re_number_def split: list.splits if_splits)
  then show ?thesis
  proof cases
    case int
    with ne alld nop assms(2) show ?thesis
      by (auto simp: number_value_def split: option.splits)
  next
    case real
    let ?fs = "takeWhile digit r"
    have d: "\<And>x. x \<in> set ?ds \<Longrightarrow> digit x" by (meson set_takeWhileD)
    have np: "\<not> digit CHR ''.''" by (simp add: digit_def)
    have 1: "takeWhile digit m = ?ds"
      unfolding real(3) using d np by simp
    have 2: "dropWhile digit m = CHR ''.'' # ?fs"
      unfolding real(3) using d np by simp
    have 3: "takeWhile digit ?fs = ?fs" by simp
    from ne obtain x xs where c: "?ds = x # xs" by (cases ?ds) auto
    have "re_number None m = Some (?ds @ CHR ''.'' # ?fs)"
      unfolding re_number_def 1 2 3 c using real(2) by simp
    then show ?thesis unfolding real(3) number_value_def by simp
  qed
qed

lemma re_string_plain_shape:
  assumes "re_string_plain prev s = Some m"
  shows "\<exists>body. m = quote # body @ [quote] \<and> quote \<notin> set body"
proof -
  from assms obtain cs where "m = quote # takeWhile plain_char cs @ [quote]"
    by (auto simp: re_string_plain_def split: list.splits if_splits)
  moreover have "quote \<notin> set (takeWhile plain_char cs)"
    by (metis plain_char_def set_takeWhileD)
  ultimately show ?thesis by blast
qed

lemma re_string_body_shape:
  "re_string_body s = Some m \<Longrightarrow> \<exists>body. m = body @ [quote]"
proof (induction s arbitrary: m rule: length_induct)
  case (1 s)
  show ?case
  proof (cases s)
    case Nil
    with "1.prems" show ?thesis by simp
  next
    case (Cons c cs)
    from "1.prems" Cons consider
        (esc) d ds m' where "cs = d # ds" "re_string_body ds = Some m'" "m = c # d # m'"
      | (one) m' where "re_string_body cs = Some m'" "m = c # m'"
      | (fin) "m = [quote]"
      unfolding Cons re_string_body.simps
      by (auto simp del: re_string_body.simps split: list.splits option.splits if_splits)
    then show ?thesis
    proof cases
      case esc
      with Cons have "length ds < length s" by simp
      with "1.IH" esc(2) obtain b where "m' = b @ [quote]" by blast
      with esc(3) have "m = (c # d # b) @ [quote]" by simp
      then show ?thesis by blast
    next
      case one
      from Cons have "length cs < length s" by simp
      with "1.IH" one(1) obtain b where "m' = b @ [quote]" by blast
      with one(2) have "m = (c # b) @ [quote]" by simp
      then show ?thesis by blast
    next
      case fin
      then show ?thesis by simp
    qed
  qed
qed

lemma re_string_shape:
  assumes "re_string prev s = Some m"
  shows "\<exists>body. m = quote # body @ [quote]"
proof -
  from assms obtain cs m' where "re_string_body cs = Some m'" "m = quote # m'"
    by (auto simp: re_string_def split: list.splits if_splits)
  with re_string_body_shape [of cs m'] show ?thesis by auto
qed

text \<open>The group names of a specification are distinct: a name tells the pattern.\<close>

lemma snake_string_pattern:
  "first_match snake_token_specification prev s = Some (''STRING'', m) \<Longrightarrow>
     re_string_plain prev s = Some m"
  by (drule first_match_source) (auto simp: snake_token_specification_def)

lemma snake_number_pattern:
  "first_match snake_token_specification prev s = Some (''NUMBER'', m) \<Longrightarrow>
     re_number prev s = Some m"
  by (drule first_match_source) (auto simp: snake_token_specification_def)

lemma game_string_pattern:
  "first_match game_token_specification prev s = Some (''STRING'', m) \<Longrightarrow>
     re_string prev s = Some m"
  by (drule first_match_source) (auto simp: game_token_specification_def)

lemma snake_numbers_valid:
  assumes "mo \<in> set (finditer snake_token_specification prev off s)"
    and "lastgroup mo = ''NUMBER''"
  shows "\<exists>v. number_value None (group mo) = Inr v"
proof -
  from finditer_source [OF assms(1)] assms(2) obtain prev' s'
    where "first_match snake_token_specification prev' s' = Some (''NUMBER'', group mo)"
    by auto
  then have "re_number prev' s' = Some (group mo)" by (rule snake_number_pattern)
  then show ?thesis by (rule re_number_valid) simp
qed

lemma snake_step_mismatch:
  "lastgroup mo = ''MISMATCH'' \<Longrightarrow> \<exists>m. snake_step mo lx = Inl (RuntimeError m)"
  by (simp add: snake_step_def Let_def)

lemma snake_step_ok:
  assumes "lastgroup mo \<noteq> ''MISMATCH''"
    and "lastgroup mo = ''NUMBER'' \<Longrightarrow> \<exists>v. number_value None (group mo) = Inr v"
  shows "\<exists>lx'. snake_step mo lx = Inr lx'"
proof (cases "lastgroup mo = ''NUMBER''")
  case True
  with assms(2) obtain v where "number_value None (group mo) = Inr v" by blast
  with True show ?thesis by (simp add: snake_step_def Let_def)
next
  case False
  with assms(1) show ?thesis by (simp add: snake_step_def Let_def)
qed

lemma snake_loop_ok:
  assumes "\<And>mo. mo \<in> set ms \<Longrightarrow> lastgroup mo \<noteq> ''MISMATCH''"
    and "\<And>mo. mo \<in> set ms \<Longrightarrow> lastgroup mo = ''NUMBER'' \<Longrightarrow> \<exists>v. number_value None (group mo) = Inr v"
  shows "\<exists>lx'. snake_loop ms lx = Inr lx'"
  using assms
proof (induction ms arbitrary: lx)
  case Nil
  then show ?case by simp
next
  case (Cons mo ms)
  have "\<exists>lx'. snake_step mo lx = Inr lx'"
    by (rule snake_step_ok) (use Cons.prems in auto)
  then obtain lx' where s: "snake_step mo lx = Inr lx'" by blast
  have "\<exists>lx''. snake_loop ms lx' = Inr lx''"
    by (rule Cons.IH) (use Cons.prems in auto)
  with s show ?case by simp
qed

lemma snake_loop_mismatch:
  assumes "\<exists>mo \<in> set ms. lastgroup mo = ''MISMATCH''"
    and "\<And>mo. mo \<in> set ms \<Longrightarrow> lastgroup mo = ''NUMBER'' \<Longrightarrow> \<exists>v. number_value None (group mo) = Inr v"
  shows "\<exists>m. snake_loop ms lx = Inl (RuntimeError m)"
  using assms
proof (induction ms arbitrary: lx)
  case Nil
  then show ?case by simp
next
  case (Cons mo ms)
  show ?case
  proof (cases "lastgroup mo = ''MISMATCH''")
    case True
    then obtain m where "snake_step mo lx = Inl (RuntimeError m)"
      using snake_step_mismatch by blast
    then show ?thesis by simp
  next
    case False
    have "\<exists>lx'. snake_step mo lx = Inr lx'"
      by (rule snake_step_ok) (use False Cons.prems(2) in auto)
    then obtain lx' where s: "snake_step mo lx = Inr lx'" by blast
    have "\<exists>m. snake_loop ms lx' = Inl (RuntimeError m)"
      by (rule Cons.IH) (use False Cons.prems in auto)
    with s show ?thesis by simp
  qed
qed

lemma tetris_step_mismatch:
  "lastgroup mo = ''MISMATCH'' \<Longrightarrow> \<exists>m. tetris_step mo lx = Inl (RuntimeError m)"
  by (simp add: tetris_step_def Let_def)

lemma tetris_step_ok:
  "lastgroup mo \<noteq> ''MISMATCH'' \<Longrightarrow> \<exists>lx'. tetris_step mo lx = Inr lx' \<and> t_col lx' \<noteq> None"
  by (simp add: tetris_step_def Let_def)

lemma tetris_loop_col:
  assumes "\<And>mo. mo \<in> set ms \<Longrightarrow> lastgroup mo \<noteq> ''MISMATCH''"
    and "t_col lx \<noteq> None"
  shows "\<exists>lx'. tetris_loop ms lx = Inr lx' \<and> t_col lx' \<noteq> None"
  using assms
proof (induction ms arbitrary: lx)
  case Nil
  then show ?case by simp
next
  case (Cons mo ms)
  from Cons.prems(1) have "lastgroup mo \<noteq> ''MISMATCH''" by simp
  then obtain lx' where s: "tetris_step mo lx = Inr lx'" "t_col lx' \<noteq> None"
    using tetris_step_ok by blast
  have "\<exists>lx''. tetris_loop ms lx' = Inr lx'' \<and> t_col lx'' \<noteq> None"
    by (rule Cons.IH) (use Cons.prems s in auto)
  with s show ?case by simp
qed

lemma tetris_loop_ok:
  assumes "\<And>mo. mo \<in> set ms \<Longrightarrow> lastgroup mo \<noteq> ''MISMATCH''" and "ms \<noteq> []"
  shows "\<exists>lx'. tetris_loop ms lx = Inr lx' \<and> t_col lx' \<noteq> None"
proof (cases ms)
  case Nil
  with assms(2) show ?thesis by simp
next
  case (Cons mo ms')
  with assms(1) have "lastgroup mo \<noteq> ''MISMATCH''" by simp
  then obtain lx' where s: "tetris_step mo lx = Inr lx'" "t_col lx' \<noteq> None"
    using tetris_step_ok by blast
  have "\<exists>lx''. tetris_loop ms' lx' = Inr lx'' \<and> t_col lx'' \<noteq> None"
    by (rule tetris_loop_col) (use assms(1) Cons s in auto)
  with s Cons show ?thesis by simp
qed

lemma tetris_loop_mismatch:
  assumes "\<exists>mo \<in> set ms. lastgroup mo = ''MISMATCH''"
  shows "\<exists>m. tetris_loop ms lx = Inl (RuntimeError m)"
  using assms
proof (induction ms arbitrary: lx)
  case Nil
  then show ?case by simp
next
  case (Cons mo ms)
  show ?case
  proof (cases "lastgroup mo = ''MISMATCH''")
    case True
    then obtain m where "tetris_step mo lx = Inl (RuntimeError m)"
      using tetris_step_mismatch by blast
    then show ?thesis by simp
  next
    case False
    then obtain lx' where s: "tetris_step mo lx = Inr lx'"
      using tetris_step_ok by blast
    have "\<exists>m. tetris_loop ms lx' = Inl (RuntimeError m)"
      by (rule Cons.IH) (use False Cons.prems in auto)
    with s show ?thesis by simp
  qed
qed

lemma cur_col_game_step: "cur_col (game_step mo lx) = start mo - line_start lx + 1"
  by (simp add: game_step_def Let_def)

text \<open>
  What one match does to the counters of a lexer: a \<^verbatim>\<open>NEWLINE\<close> match adds 1 to the line
  and moves the start of the line to its end; every match sets the column.
\<close>

lemma game_step_position:
  "line_num (game_step mo lx) = line_num lx + (if lastgroup mo = ''NEWLINE'' then 1 else 0)"
  "line_start (game_step mo lx) = (if lastgroup mo = ''NEWLINE'' then end_pos mo else line_start lx)"
  by (simp_all add: game_step_def Let_def)

lemma snake_step_position:
  assumes "snake_step mo lx = Inr lx'"
  shows "s_line_num lx' = s_line_num lx + (if lastgroup mo = ''NEWLINE'' then 1 else 0)"
    and "s_line_start lx' = (if lastgroup mo = ''NEWLINE'' then end_pos mo else s_line_start lx)"
    and "s_col lx' = start mo - s_line_start lx + 1"
  using assms
  by (auto simp: snake_step_def Let_def snake_append_def split: if_splits sum.splits)

lemma tetris_step_position:
  assumes "tetris_step mo lx = Inr lx'"
  shows "t_line_num lx' = t_line_num lx + (if lastgroup mo = ''NEWLINE'' then 1 else 0)"
    and "t_line_start lx' = (if lastgroup mo = ''NEWLINE'' then end_pos mo else t_line_start lx)"
    and "t_col lx' = Some (start mo - t_line_start lx + 1)"
  using assms
  by (auto simp: tetris_step_def Let_def split: if_splits)

lemma snake_loop_append:
  "snake_loop (ms @ [mo]) lx =
     (case snake_loop ms lx of Inl e \<Rightarrow> Inl e | Inr lx' \<Rightarrow> snake_step mo lx')"
  by (induction ms arbitrary: lx) (auto split: sum.splits)

lemma tetris_loop_append:
  "tetris_loop (ms @ [mo]) lx =
     (case tetris_loop ms lx of Inl e \<Rightarrow> Inl e | Inr lx' \<Rightarrow> tetris_step mo lx')"
  by (induction ms arbitrary: lx) (auto split: sum.splits)

lemma newlines_snoc:
  "newlines (ms @ [mo]) = (if lastgroup mo = ''NEWLINE'' then newlines ms @ [mo] else newlines ms)"
  by (simp add: newlines_def)

text \<open>The counters after a scan, from the counters before it and the matches.\<close>

lemma game_fold_position:
  "line_num (fold game_step ms lx) = line_num lx + length (newlines ms) \<and>
   line_start (fold game_step ms lx) =
     (case rev (newlines ms) of [] \<Rightarrow> line_start lx | mo # earlier \<Rightarrow> end_pos mo)"
proof (induction ms rule: rev_induct)
  case Nil
  show ?case by (simp add: newlines_def)
next
  case (snoc mo ms)
  then show ?case by (simp add: game_step_position newlines_snoc)
qed

lemma snake_loop_position:
  "snake_loop ms lx = Inr lx' \<Longrightarrow>
     s_line_num lx' = s_line_num lx + length (newlines ms) \<and>
     s_line_start lx' =
       (case rev (newlines ms) of [] \<Rightarrow> s_line_start lx | mo # earlier \<Rightarrow> end_pos mo)"
proof (induction ms arbitrary: lx' rule: rev_induct)
  case Nil
  then show ?case by (simp add: newlines_def)
next
  case (snoc mo ms)
  from snoc.prems obtain lx1 where 1: "snake_loop ms lx = Inr lx1" and 2: "snake_step mo lx1 = Inr lx'"
    by (auto simp: snake_loop_append split: sum.splits)
  from snoc.IH [OF 1] snake_step_position(1,2) [OF 2] show ?case
    by (simp add: newlines_snoc)
qed

lemma tetris_loop_position:
  "tetris_loop ms lx = Inr lx' \<Longrightarrow>
     t_line_num lx' = t_line_num lx + length (newlines ms) \<and>
     t_line_start lx' =
       (case rev (newlines ms) of [] \<Rightarrow> t_line_start lx | mo # earlier \<Rightarrow> end_pos mo)"
proof (induction ms arbitrary: lx' rule: rev_induct)
  case Nil
  then show ?case by (simp add: newlines_def)
next
  case (snoc mo ms)
  from snoc.prems obtain lx1 where 1: "tetris_loop ms lx = Inr lx1" and 2: "tetris_step mo lx1 = Inr lx'"
    by (auto simp: tetris_loop_append split: sum.splits)
  from snoc.IH [OF 1] tetris_step_position(1,2) [OF 2] show ?case
    by (simp add: newlines_snoc)
qed

text \<open>
  The \<^verbatim>\<open>EOF\<close> token of each lexer stands at \<open>eof_line\<close> and \<open>eof_col\<close> of the matches.
\<close>

lemma game_scan_eof:
  "line_num (fold game_step ms game_lexer_init) = eof_line ms \<and>
   cur_col (fold game_step ms game_lexer_init) = eof_col ms"
proof (cases ms rule: rev_cases)
  case Nil
  then show ?thesis by (simp add: game_lexer_init_def eof_line_def eof_col_def newlines_def)
next
  case (snoc before mo)
  have "line_num (fold game_step ms game_lexer_init) = eof_line ms"
    using game_fold_position [of ms game_lexer_init]
    by (simp add: eof_line_def game_lexer_init_def)
  moreover have "line_start (fold game_step before game_lexer_init) = line_start_after before"
    using game_fold_position [of before game_lexer_init]
    by (simp add: line_start_after_def game_lexer_init_def split: list.splits)
  then have "cur_col (fold game_step ms game_lexer_init) = eof_col ms"
    unfolding snoc by (simp add: cur_col_game_step eof_col_def)
  ultimately show ?thesis by simp
qed

lemma snake_loop_eof:
  assumes "snake_loop ms snake_lexer_init = Inr lx"
  shows "s_line_num lx = eof_line ms \<and> s_col lx = eof_col ms"
proof (cases ms rule: rev_cases)
  case Nil
  with assms show ?thesis
    by (auto simp: snake_lexer_init_def eof_line_def eof_col_def newlines_def)
next
  case (snoc before mo)
  from assms obtain lx1 where 1: "snake_loop before snake_lexer_init = Inr lx1"
    and 2: "snake_step mo lx1 = Inr lx"
    unfolding snoc by (auto simp: snake_loop_append split: sum.splits)
  have "s_line_num lx = eof_line ms"
    using snake_loop_position [OF assms] by (simp add: eof_line_def snake_lexer_init_def)
  moreover have "s_line_start lx1 = line_start_after before"
    using snake_loop_position [OF 1] by (simp add: line_start_after_def snake_lexer_init_def split: list.splits)
  with snake_step_position(3) [OF 2] have "s_col lx = eof_col ms"
    unfolding snoc by (simp add: eof_col_def)
  ultimately show ?thesis by simp
qed

lemma tetris_loop_eof:
  assumes "tetris_loop ms tetris_lexer_init = Inr lx" and "ms \<noteq> []"
  shows "t_line_num lx = eof_line ms \<and> t_col lx = Some (eof_col ms)"
proof (cases ms rule: rev_cases)
  case Nil
  with assms(2) show ?thesis by simp
next
  case (snoc before mo)
  from assms(1) obtain lx1 where 1: "tetris_loop before tetris_lexer_init = Inr lx1"
    and 2: "tetris_step mo lx1 = Inr lx"
    unfolding snoc by (auto simp: tetris_loop_append split: sum.splits)
  have "t_line_num lx = eof_line ms"
    using tetris_loop_position [OF assms(1)] by (simp add: eof_line_def tetris_lexer_init_def)
  moreover have "t_line_start lx1 = line_start_after before"
    using tetris_loop_position [OF 1] by (simp add: line_start_after_def tetris_lexer_init_def split: list.splits)
  with tetris_step_position(3) [OF 2] have "t_col lx = Some (eof_col ms)"
    unfolding snoc by (simp add: eof_col_def)
  ultimately show ?thesis by simp
qed

text \<open>
  C3, as stated, fails: \<^verbatim>\<open>TetrisLexer\<close> and \<^verbatim>\<open>SnakeLexer\<close> raise \<^verbatim>\<open>RuntimeError\<close> at a
  character that no other pattern matches, and the column of the \<^verbatim>\<open>EOF\<close> token is that
  of the start of the last match: 1 after \<^verbatim>\<open>ab\<close>, where the scan ends at column 3.
\<close>

theorem tokenize_raises_counterexample:
  "tetris_tokenize ''@'' = Inl (RuntimeError (UnexpectedChar ''@'' 1)) \<and>
   snake_tokenize ''@'' = Inl (RuntimeError (UnexpectedCharAt ''@'' 1 1)) \<and>
   game_tokenize ''ab'' =
     ([\<lparr>type = ''ID'', lexeme = ''ab'', line = 1, col = 1\<rparr>,
       \<lparr>type = ''EOF'', lexeme = [], line = 1, col = 1\<rparr>], [])"
  by code_simp

text \<open>
  C3, amended. For every source text, \<^verbatim>\<open>GameLexer.tokenize\<close> returns, and the last token
  it returns is \<^verbatim>\<open>EOF\<close> with the empty lexeme, at the line \<open>eof_line\<close> and the column
  \<open>eof_col\<close> of the matches of its scan: the line counter of the end of the scan, and the
  column computed for the last match (line 1, column 1 on the empty text).
  \<^verbatim>\<open>SnakeLexer.tokenize\<close>, and \<^verbatim>\<open>TetrisLexer.tokenize\<close> on a text that is not empty, return
  a list that ends with the \<^verbatim>\<open>EOF\<close> token at that line and that column of the matches of
  their own scans when no match of the scan is the catch-all \<^verbatim>\<open>MISMATCH\<close>, and raise
  \<^verbatim>\<open>RuntimeError\<close> when one is.
\<close>

theorem tokenize_appends_EOF:
  "(\<exists>ts. fst (game_tokenize code) =
      ts @ [\<lparr>type = ''EOF'', lexeme = [],
              line = eof_line (finditer game_token_specification None 0 code),
              col = eof_col (finditer game_token_specification None 0 code)\<rparr>]) \<and>
   (code = [] \<longrightarrow>
      fst (game_tokenize code) = [\<lparr>type = ''EOF'', lexeme = [], line = 1, col = 1\<rparr>]) \<and>
   (''MISMATCH'' \<notin> lastgroup ` set (finditer snake_token_specification None 0 code) \<longrightarrow>
      (\<exists>ts. snake_tokenize code =
         Inr (ts @ [\<lparr>type = ''EOF'', lexeme = PyStr [],
                      line = eof_line (finditer snake_token_specification None 0 code),
                      col = eof_col (finditer snake_token_specification None 0 code)\<rparr>]))) \<and>
   (''MISMATCH'' \<in> lastgroup ` set (finditer snake_token_specification None 0 code) \<longrightarrow>
      (\<exists>m. snake_tokenize code = Inl (RuntimeError m))) \<and>
   (code \<noteq> [] \<and>
    ''MISMATCH'' \<notin> lastgroup ` set (finditer tetris_token_specification None 0 code) \<longrightarrow>
      (\<exists>ts. tetris_tokenize code =
         Inr (ts @ [\<lparr>type = ''EOF'', lexeme = [],
                      line = eof_line (finditer tetris_token_specification None 0 code),
                      col = eof_col (finditer tetris_token_specification None 0 code)\<rparr>]))) \<and>
   (''MISMATCH'' \<in> lastgroup ` set (finditer tetris_token_specification None 0 code) \<longrightarrow>
      (\<exists>m. tetris_tokenize code = Inl (RuntimeError m)))"
proof (intro conjI impI)
  let ?ms = "finditer game_token_specification None 0 code"
  show "\<exists>ts. fst (game_tokenize code) =
      ts @ [\<lparr>type = ''EOF'', lexeme = [], line = eof_line ?ms, col = eof_col ?ms\<rparr>]"
    using game_scan_eof [of ?ms] by (simp add: game_tokenize_def game_scan_def Let_def)
next
  assume "code = []"
  then show "fst (game_tokenize code) = [\<lparr>type = ''EOF'', lexeme = [], line = 1, col = 1\<rparr>]"
    by (simp add: game_tokenize_def game_scan_def game_lexer_init_def)
next
  let ?ms = "finditer snake_token_specification None 0 code"
  assume "''MISMATCH'' \<notin> lastgroup ` set ?ms"
  then have nm: "\<And>mo. mo \<in> set ?ms \<Longrightarrow> lastgroup mo \<noteq> ''MISMATCH''" by force
  have nv: "\<And>mo. mo \<in> set ?ms \<Longrightarrow> lastgroup mo = ''NUMBER'' \<Longrightarrow>
              \<exists>v. number_value None (group mo) = Inr v"
    by (rule snake_numbers_valid)
  have "\<exists>lx'. snake_loop ?ms snake_lexer_init = Inr lx'"
    by (rule snake_loop_ok) (use nm nv in blast)+
  then obtain lx where lx: "snake_loop ?ms snake_lexer_init = Inr lx" by blast
  from snake_loop_eof [OF lx] lx
  show "\<exists>ts. snake_tokenize code =
         Inr (ts @ [\<lparr>type = ''EOF'', lexeme = PyStr [], line = eof_line ?ms, col = eof_col ?ms\<rparr>])"
    by (simp add: snake_tokenize_def)
next
  let ?ms = "finditer snake_token_specification None 0 code"
  assume "''MISMATCH'' \<in> lastgroup ` set ?ms"
  then have mm: "\<exists>mo \<in> set ?ms. lastgroup mo = ''MISMATCH''" by force
  have nv: "\<And>mo. mo \<in> set ?ms \<Longrightarrow> lastgroup mo = ''NUMBER'' \<Longrightarrow>
              \<exists>v. number_value None (group mo) = Inr v"
    by (rule snake_numbers_valid)
  have "\<exists>m. snake_loop ?ms snake_lexer_init = Inl (RuntimeError m)"
    by (rule snake_loop_mismatch) (use mm nv in blast)+
  then show "\<exists>m. snake_tokenize code = Inl (RuntimeError m)"
    by (auto simp: snake_tokenize_def)
next
  let ?ms = "finditer tetris_token_specification None 0 code"
  assume a: "code \<noteq> [] \<and> ''MISMATCH'' \<notin> lastgroup ` set ?ms"
  then obtain c cs where code: "code = c # cs" by (cases code) auto
  have ne: "?ms \<noteq> []" unfolding code
    by (rule finditer_not_empty [where mis = "''MISMATCH''" and nl = "''NEWLINE''"])
       (simp_all add: tetris_token_specification_def)
  moreover from a have "\<And>mo. mo \<in> set ?ms \<Longrightarrow> lastgroup mo \<noteq> ''MISMATCH''" by force
  ultimately have "\<exists>lx'. tetris_loop ?ms tetris_lexer_init = Inr lx' \<and> t_col lx' \<noteq> None"
    using tetris_loop_ok by blast
  then obtain lx where lx: "tetris_loop ?ms tetris_lexer_init = Inr lx" by blast
  from tetris_loop_eof [OF lx ne] lx
  show "\<exists>ts. tetris_tokenize code =
         Inr (ts @ [\<lparr>type = ''EOF'', lexeme = [], line = eof_line ?ms, col = eof_col ?ms\<rparr>])"
    by (simp add: tetris_tokenize_def)
next
  let ?ms = "finditer tetris_token_specification None 0 code"
  assume "''MISMATCH'' \<in> lastgroup ` set ?ms"
  then have "\<exists>mo \<in> set ?ms. lastgroup mo = ''MISMATCH''" by force
  then have "\<exists>m. tetris_loop ?ms tetris_lexer_init = Inl (RuntimeError m)"
    by (rule tetris_loop_mismatch)
  then show "\<exists>m. tetris_tokenize code = Inl (RuntimeError m)"
    by (auto simp: tetris_tokenize_def)
qed

theorem tokenize_appends_EOF_witness:
  "fst (game_tokenize []) = [\<lparr>type = ''EOF'', lexeme = [], line = 1, col = 1\<rparr>] \<and>
   (\<exists>ts. fst (game_tokenize (CHR ''a'' # newline # ''b c'')) =
      ts @ [\<lparr>type = ''EOF'', lexeme = [], line = 2, col = 3\<rparr>]) \<and>
   ''MISMATCH'' \<notin> lastgroup `
      set (finditer snake_token_specification None 0 (CHR ''a'' # newline # ''b c'')) \<and>
   (\<exists>ts. snake_tokenize (CHR ''a'' # newline # ''b c'') =
      Inr (ts @ [\<lparr>type = ''EOF'', lexeme = PyStr [], line = 2, col = 3\<rparr>])) \<and>
   ''MISMATCH'' \<in> lastgroup ` set (finditer snake_token_specification None 0 ''@'') \<and>
   (\<exists>m. snake_tokenize ''@'' = Inl (RuntimeError m)) \<and>
   CHR ''a'' # newline # ''b c'' \<noteq> [] \<and>
   ''MISMATCH'' \<notin> lastgroup `
      set (finditer tetris_token_specification None 0 (CHR ''a'' # newline # ''b c'')) \<and>
   (\<exists>ts. tetris_tokenize (CHR ''a'' # newline # ''b c'') =
      Inr (ts @ [\<lparr>type = ''EOF'', lexeme = [], line = 2, col = 3\<rparr>])) \<and>
   ''MISMATCH'' \<in> lastgroup ` set (finditer tetris_token_specification None 0 ''@'') \<and>
   (\<exists>m. tetris_tokenize ''@'' = Inl (RuntimeError m))"
proof -
  let ?x = "CHR ''a'' # newline # ''b c''"
  have gl: "eof_line (finditer game_token_specification None 0 ?x) = 2" by code_simp
  have gc: "eof_col (finditer game_token_specification None 0 ?x) = 3" by code_simp
  have sl: "eof_line (finditer snake_token_specification None 0 ?x) = 2" by code_simp
  have sc: "eof_col (finditer snake_token_specification None 0 ?x) = 3" by code_simp
  have tl: "eof_line (finditer tetris_token_specification None 0 ?x) = 2" by code_simp
  have tc: "eof_col (finditer tetris_token_specification None 0 ?x) = 3" by code_simp
  have s1: "''MISMATCH'' \<notin> lastgroup ` set (finditer snake_token_specification None 0 ?x)"
    by code_simp
  have s2: "''MISMATCH'' \<in> lastgroup ` set (finditer snake_token_specification None 0 ''@'')"
    by code_simp
  have t1: "''MISMATCH'' \<notin> lastgroup ` set (finditer tetris_token_specification None 0 ?x)"
    by code_simp
  have t2: "''MISMATCH'' \<in> lastgroup ` set (finditer tetris_token_specification None 0 ''@'')"
    by code_simp
  have ne: "?x \<noteq> []" by simp
  have e: "fst (game_tokenize []) = [\<lparr>type = ''EOF'', lexeme = [], line = 1, col = 1\<rparr>]"
    using tokenize_appends_EOF [of "[]"] by blast
  have "\<exists>ts. fst (game_tokenize ?x) =
      ts @ [\<lparr>type = ''EOF'', lexeme = [],
              line = eof_line (finditer game_token_specification None 0 ?x),
              col = eof_col (finditer game_token_specification None 0 ?x)\<rparr>]"
    using tokenize_appends_EOF [of ?x] by blast
  then have g: "\<exists>ts. fst (game_tokenize ?x) =
      ts @ [\<lparr>type = ''EOF'', lexeme = [], line = 2, col = 3\<rparr>]"
    by (simp only: gl gc)
  have "\<exists>ts. snake_tokenize ?x =
         Inr (ts @ [\<lparr>type = ''EOF'', lexeme = PyStr [],
                      line = eof_line (finditer snake_token_specification None 0 ?x),
                      col = eof_col (finditer snake_token_specification None 0 ?x)\<rparr>])"
    using tokenize_appends_EOF [of ?x] s1 by blast
  then have a: "\<exists>ts. snake_tokenize ?x =
         Inr (ts @ [\<lparr>type = ''EOF'', lexeme = PyStr [], line = 2, col = 3\<rparr>])"
    by (simp only: sl sc)
  have "\<exists>ts. tetris_tokenize ?x =
         Inr (ts @ [\<lparr>type = ''EOF'', lexeme = [],
                      line = eof_line (finditer tetris_token_specification None 0 ?x),
                      col = eof_col (finditer tetris_token_specification None 0 ?x)\<rparr>])"
    using tokenize_appends_EOF [of ?x] ne t1 by blast
  then have b: "\<exists>ts. tetris_tokenize ?x =
         Inr (ts @ [\<lparr>type = ''EOF'', lexeme = [], line = 2, col = 3\<rparr>])"
    by (simp only: tl tc)
  have c: "\<exists>m. snake_tokenize ''@'' = Inl (RuntimeError m)"
    using tokenize_appends_EOF [of "''@''"] s2 by blast
  have d: "\<exists>m. tetris_tokenize ''@'' = Inl (RuntimeError m)"
    using tokenize_appends_EOF [of "''@''"] t2 by blast
  from e g s1 a s2 c ne t1 b t2 d show ?thesis by (intro conjI)
qed

text \<open>
  C4, as stated, fails for \<^verbatim>\<open>GameLexer\<close>: its \<^verbatim>\<open>STRING\<close> token for the text \<^verbatim>\<open>"a"\<close>
  holds the three characters of the literal, quotes included.
\<close>

theorem game_string_token_counterexample:
  "game_tokenize [quote, CHR ''a'', quote] =
     ([\<lparr>type = ''STRING'', lexeme = [quote, CHR ''a'', quote], line = 1, col = 1\<rparr>,
       \<lparr>type = ''EOF'', lexeme = [], line = 1, col = 1\<rparr>], [])"
  by code_simp

text \<open>The text between the quotes of a match of the string pattern begins with no quote.\<close>

lemma re_string_body_head:
  assumes "re_string_body s = Some m"
  shows "m = [quote] \<or> hd m \<noteq> quote"
proof (cases s)
  case Nil
  with assms show ?thesis by simp
next
  case (Cons c cs)
  from assms Cons consider
      (esc) d m' where "c = backslash" "m = c # d # m'"
    | (one) m' where "c \<noteq> quote" "m = c # m'"
    | (fin) "m = [quote]"
    unfolding Cons re_string_body.simps
    by (auto simp del: re_string_body.simps split: list.splits option.splits if_splits)
  then show ?thesis
  proof cases
    case esc
    then show ?thesis by (simp add: backslash_def quote_def)
  next
    case one
    then show ?thesis by simp
  next
    case fin
    then show ?thesis by simp
  qed
qed

lemma re_string_shape_head:
  assumes "re_string prev s = Some m"
  shows "\<exists>body. m = quote # body @ [quote] \<and> (body = [] \<or> hd body \<noteq> quote)"
proof -
  from assms obtain cs m' where b: "re_string_body cs = Some m'" and m: "m = quote # m'"
    by (auto simp: re_string_def split: list.splits if_splits)
  from re_string_body_shape [OF b] obtain body where body: "m' = body @ [quote]" by blast
  from re_string_body_head [OF b] body have "body = [] \<or> hd body \<noteq> quote"
    by (cases body) auto
  with m body show ?thesis by blast
qed

text \<open>
  \<^verbatim>\<open>strip\<close> on a text in quotes leaves the text between them, when that text neither
  begins nor ends with a quote.
\<close>

lemma strip_enclosed:
  assumes "body = [] \<or> (hd body \<noteq> q \<and> last body \<noteq> q)"
  shows "strip q (q # body @ [q]) = body"
proof (cases "body = []")
  case True
  then show ?thesis by (simp add: strip_def)
next
  case False
  with assms have h: "hd body \<noteq> q" and l: "last body \<noteq> q" by simp_all
  from False h have 1: "dropWhile (\<lambda>c. c = q) (q # body @ [q]) = body @ [q]"
    by (cases body) simp_all
  from False l have 2: "dropWhile (\<lambda>c. c = q) (rev (body @ [q])) = rev body"
    by (cases body rule: rev_cases) simp_all
  show ?thesis unfolding strip_def 1 2 by simp
qed

text \<open>
  C4, amended. Every match of the string pattern in a scan of \<^verbatim>\<open>SnakeLexer\<close> is a quote,
  a text without a quote, and a quote, and the token appended for it holds that text
  between the quotes. Every match of the string pattern in a scan of \<^verbatim>\<open>GameLexer\<close>
  begins and ends with a quote, and the token appended for it holds the whole match,
  with its quotes. The quotes are taken off by the parser: at a \<^verbatim>\<open>STRING\<close> token
  \<^verbatim>\<open>parse_value\<close> returns the value \<^verbatim>\<open>lexeme.strip('"')\<close>, the lexeme without the quotes at
  its two ends, which for a match of \<^verbatim>\<open>GameLexer\<close> is the text between the enclosing
  quotes when that text is empty or does not end with a quote.
\<close>

theorem string_token_payload:
  "(mo \<in> set (finditer snake_token_specification prev off code) \<and> lastgroup mo = ''STRING'' \<longrightarrow>
      (\<exists>body. group mo = quote # body @ [quote] \<and> quote \<notin> set body \<and>
         snake_step mo lx =
           Inr (snake_append (lx\<lparr>s_col := start mo - s_line_start lx + 1\<rparr>)
                  ''STRING'' (PyStr body)))) \<and>
   (mo \<in> set (finditer game_token_specification prev off code) \<and> lastgroup mo = ''STRING'' \<longrightarrow>
      (\<exists>body. group mo = quote # body @ [quote] \<and>
         tokens_acc (game_step mo gx) =
           tokens_acc gx @
             [\<lparr>type = ''STRING'', lexeme = quote # body @ [quote], line = line_num gx,
               col = start mo - line_start gx + 1\<rparr>] \<and>
         (body = [] \<or> last body \<noteq> quote \<longrightarrow> strip quote (group mo) = body))) \<and>
   (current_token p = Some t \<and> type t = ''STRING'' \<longrightarrow>
      parse_value (Suc n) p = Return (ValueNode (PyStr (strip quote (lexeme t)))) (advance p))"
proof (intro conjI impI)
  assume a: "mo \<in> set (finditer snake_token_specification prev off code) \<and>
             lastgroup mo = ''STRING''"
  then have "\<exists>prev' s'. first_match snake_token_specification prev' s' =
                Some (lastgroup mo, group mo)"
    by (intro finditer_source) blast
  with a obtain prev' s'
    where "first_match snake_token_specification prev' s' = Some (''STRING'', group mo)"
    by auto
  then have "re_string_plain prev' s' = Some (group mo)" by (rule snake_string_pattern)
  then obtain body where b: "group mo = quote # body @ [quote]" "quote \<notin> set body"
    using re_string_plain_shape by blast
  from a b have "snake_step mo lx =
           Inr (snake_append (lx\<lparr>s_col := start mo - s_line_start lx + 1\<rparr>)
                  ''STRING'' (PyStr body))"
    by (simp add: snake_step_def Let_def slice_1_minus_1_def)
  with b show "\<exists>body. group mo = quote # body @ [quote] \<and> quote \<notin> set body \<and>
         snake_step mo lx =
           Inr (snake_append (lx\<lparr>s_col := start mo - s_line_start lx + 1\<rparr>)
                  ''STRING'' (PyStr body))"
    by blast
next
  assume a: "mo \<in> set (finditer game_token_specification prev off code) \<and>
             lastgroup mo = ''STRING''"
  then have "\<exists>prev' s'. first_match game_token_specification prev' s' =
                Some (lastgroup mo, group mo)"
    by (intro finditer_source) blast
  with a obtain prev' s'
    where "first_match game_token_specification prev' s' = Some (''STRING'', group mo)"
    by auto
  then have "re_string prev' s' = Some (group mo)" by (rule game_string_pattern)
  then obtain body where b: "group mo = quote # body @ [quote]"
    and h: "body = [] \<or> hd body \<noteq> quote"
    using re_string_shape_head by blast
  from a b have "tokens_acc (game_step mo gx) =
           tokens_acc gx @
             [\<lparr>type = ''STRING'', lexeme = quote # body @ [quote], line = line_num gx,
               col = start mo - line_start gx + 1\<rparr>]"
    by (simp add: game_step_def Let_def)
  moreover have "strip quote (group mo) = body" if "body = [] \<or> last body \<noteq> quote"
    unfolding b by (rule strip_enclosed) (use h that in blast)
  ultimately show "\<exists>body. group mo = quote # body @ [quote] \<and>
         tokens_acc (game_step mo gx) =
           tokens_acc gx @
             [\<lparr>type = ''STRING'', lexeme = quote # body @ [quote], line = line_num gx,
               col = start mo - line_start gx + 1\<rparr>] \<and>
         (body = [] \<or> last body \<noteq> quote \<longrightarrow> strip quote (group mo) = body)"
    using b by blast
next
  assume "current_token p = Some t \<and> type t = ''STRING''"
  then show "parse_value (Suc n) p =
      Return (ValueNode (PyStr (strip quote (lexeme t)))) (advance p)"
    by simp
qed

theorem string_token_payload_witness:
  "\<lparr>lastgroup = ''STRING'', group = [quote, CHR ''a'', quote], start = 0, end_pos = 3\<rparr>
     \<in> set (finditer snake_token_specification None 0 [quote, CHR ''a'', quote]) \<and>
   \<lparr>lastgroup = ''STRING'', group = [quote, CHR ''a'', quote], start = 0, end_pos = 3\<rparr>
     \<in> set (finditer game_token_specification None 0 [quote, CHR ''a'', quote]) \<and>
   (\<exists>body. [quote, CHR ''a'', quote] = quote # body @ [quote] \<and> quote \<notin> set body \<and>
      snake_step \<lparr>lastgroup = ''STRING'', group = [quote, CHR ''a'', quote], start = 0, end_pos = 3\<rparr>
          snake_lexer_init =
        Inr (snake_append (snake_lexer_init\<lparr>s_col := 0 - s_line_start snake_lexer_init + 1\<rparr>)
               ''STRING'' (PyStr body))) \<and>
   (\<exists>body. [quote, CHR ''a'', quote] = quote # body @ [quote] \<and>
      tokens_acc (game_step \<lparr>lastgroup = ''STRING'', group = [quote, CHR ''a'', quote], start = 0, end_pos = 3\<rparr>
                    game_lexer_init) =
        tokens_acc game_lexer_init @
          [\<lparr>type = ''STRING'', lexeme = quote # body @ [quote], line = line_num game_lexer_init,
            col = 0 - line_start game_lexer_init + 1\<rparr>] \<and>
      (body = [] \<or> last body \<noteq> quote) \<and> strip quote [quote, CHR ''a'', quote] = body) \<and>
   current_token
     \<lparr>tokens = [\<lparr>type = ''STRING'', lexeme = [quote, CHR ''a'', quote], line = 1, col = 1\<rparr>],
      pos = 0,
      current_token = Some \<lparr>type = ''STRING'', lexeme = [quote, CHR ''a'', quote], line = 1, col = 1\<rparr>,
      errors = []\<rparr> =
     Some \<lparr>type = ''STRING'', lexeme = [quote, CHR ''a'', quote], line = 1, col = 1\<rparr> \<and>
   parse_value (Suc 0)
     \<lparr>tokens = [\<lparr>type = ''STRING'', lexeme = [quote, CHR ''a'', quote], line = 1, col = 1\<rparr>],
      pos = 0,
      current_token = Some \<lparr>type = ''STRING'', lexeme = [quote, CHR ''a'', quote], line = 1, col = 1\<rparr>,
      errors = []\<rparr> =
     Return (ValueNode (PyStr (strip quote [quote, CHR ''a'', quote])))
       (advance
          \<lparr>tokens = [\<lparr>type = ''STRING'', lexeme = [quote, CHR ''a'', quote], line = 1, col = 1\<rparr>],
            pos = 0,
            current_token = Some \<lparr>type = ''STRING'', lexeme = [quote, CHR ''a'', quote], line = 1, col = 1\<rparr>,
            errors = []\<rparr>)"
proof -
  let ?mo = "\<lparr>lastgroup = ''STRING'', group = [quote, CHR ''a'', quote], start = 0, end_pos = 3\<rparr>"
  let ?code = "[quote, CHR ''a'', quote]"
  let ?t = "\<lparr>type = ''STRING'', lexeme = [quote, CHR ''a'', quote], line = 1, col = 1\<rparr>"
  let ?p = "\<lparr>tokens = [?t], pos = 0, current_token = Some ?t, errors = []\<rparr>"
  have s: "?mo \<in> set (finditer snake_token_specification None 0 ?code)" by code_simp
  have g: "?mo \<in> set (finditer game_token_specification None 0 ?code)" by code_simp
  have q: "CHR ''a'' \<noteq> quote" by (simp add: quote_def)
  note U = string_token_payload [of ?mo None 0 ?code snake_lexer_init game_lexer_init ?p ?t 0]
  from U s have 1: "\<exists>body. ?code = quote # body @ [quote] \<and> quote \<notin> set body \<and>
      snake_step ?mo snake_lexer_init =
        Inr (snake_append (snake_lexer_init\<lparr>s_col := 0 - s_line_start snake_lexer_init + 1\<rparr>)
               ''STRING'' (PyStr body))"
    by simp
  from U g obtain body where b: "?code = quote # body @ [quote]"
    and tk: "tokens_acc (game_step ?mo game_lexer_init) =
        tokens_acc game_lexer_init @
          [\<lparr>type = ''STRING'', lexeme = quote # body @ [quote], line = line_num game_lexer_init,
            col = 0 - line_start game_lexer_init + 1\<rparr>]"
    and st: "body = [] \<or> last body \<noteq> quote \<longrightarrow> strip quote ?code = body"
    by auto
  from b have "body = [CHR ''a'']" by simp
  with q st have "(body = [] \<or> last body \<noteq> quote) \<and> strip quote ?code = body" by simp
  with b tk have 2: "\<exists>body. ?code = quote # body @ [quote] \<and>
      tokens_acc (game_step ?mo game_lexer_init) =
        tokens_acc game_lexer_init @
          [\<lparr>type = ''STRING'', lexeme = quote # body @ [quote], line = line_num game_lexer_init,
            col = 0 - line_start game_lexer_init + 1\<rparr>] \<and>
      (body = [] \<or> last body \<noteq> quote) \<and> strip quote ?code = body"
    by blast
  have 3: "current_token ?p = Some ?t" by simp
  from U 3 have 4: "parse_value (Suc 0) ?p =
      Return (ValueNode (PyStr (strip quote ?code))) (advance ?p)"
    by simp
  from s g 1 2 3 4 show ?thesis by (intro conjI)
qed

section \<open>The parser: progress\<close>

lemma then_do_Return:
  "then_do m f = Return b q \<longleftrightarrow> (\<exists>a p. m = Return a p \<and> f a p = Return b q)"
  by (cases m) auto


lemma then_do_OutOfFuel:
  "then_do m f = OutOfFuel \<longleftrightarrow> m = OutOfFuel \<or> (\<exists>a p. m = Return a p \<and> f a p = OutOfFuel)"
  by (cases m) auto

lemma advance_simps [simp]:
  "tokens (advance p) = tokens p" "pos (advance p) = Suc (pos p)"
  "errors (advance p) = errors p" "wf_parser (advance p)"
  by (simp_all add: advance_def wf_parser_def Let_def)

lemma add_error_simps [simp]:
  "tokens (add_error p m) = tokens p" "pos (add_error p m) = pos p"
  "current_token (add_error p m) = current_token p"
  "errors (add_error p m) = errors p @ [m]"
  "wf_parser (add_error p m) = wf_parser p"
  by (simp_all add: add_error_def wf_parser_def)

lemma moved_refl: "wf_parser p \<Longrightarrow> moved 0 p p"
  by (simp add: moved_def)

lemma moved_advance: "moved 1 p (advance p)"
  by (simp add: moved_def)

lemma moved_advance_iff [simp]:
  "moved k p (advance q) \<longleftrightarrow> tokens q = tokens p \<and> pos p + k \<le> Suc (pos q)"
  by (simp add: moved_def)

lemma moved_trans: "moved a p q \<Longrightarrow> moved b q r \<Longrightarrow> moved (a + b) p r"
  by (simp add: moved_def)

lemma moved_less: "moved k p q \<Longrightarrow> j \<le> k \<Longrightarrow> moved j p q"
  by (simp add: moved_def)

lemma moved_add_error [simp]: "moved k (add_error p m) q = moved k p q"
  by (simp add: moved_def)

lemma moved_skip_optional: "wf_parser p \<Longrightarrow> moved 0 p (skip_optional k p)"
  by (simp add: moved_def skip_optional_def)

lemma moved_wf: "moved k p q \<Longrightarrow> wf_parser q"
  by (simp add: moved_def)

lemma expect_Return: "expect k p = Return u q \<Longrightarrow> q = advance p \<and> current_is k p"
  by (auto simp: expect_def current_is_def split: option.splits if_splits)

lemma expect_fuel [simp]: "expect k p \<noteq> OutOfFuel"
  by (auto simp: expect_def split: option.splits)


lemma expect_moved: "expect k p = Return u q \<Longrightarrow> moved 1 p q"
  by (drule expect_Return) (simp add: moved_def)

text \<open>
  Whatever the fuel, a method that returns leaves a parser that satisfies the invariant,
  on the same tokens, and \<^verbatim>\<open>parse_value\<close>, \<^verbatim>\<open>parse_list\<close>, \<^verbatim>\<open>parse_object\<close> and
  \<^verbatim>\<open>parse_function\<close> have consumed a token at least.
\<close>

lemma value_progress:
  "(\<forall>p v q. wf_parser p \<longrightarrow> parse_value n p = Return v q \<longrightarrow> moved 1 p q) \<and>
   (\<forall>p v q. wf_parser p \<longrightarrow> parse_list n p = Return v q \<longrightarrow> moved 1 p q) \<and>
   (\<forall>p a v q. wf_parser p \<longrightarrow> list_loop n p a = Return v q \<longrightarrow> moved 0 p q) \<and>
   (\<forall>p v q. wf_parser p \<longrightarrow> parse_object n p = Return v q \<longrightarrow> moved 1 p q) \<and>
   (\<forall>p a v q. wf_parser p \<longrightarrow> object_loop n p a = Return v q \<longrightarrow> moved 0 p q) \<and>
   (\<forall>p v q. wf_parser p \<longrightarrow> parse_function n p = Return v q \<longrightarrow> moved 1 p q) \<and>
   (\<forall>p nm a v q. wf_parser p \<longrightarrow> function_loop n nm p a = Return v q \<longrightarrow> moved 0 p q)"
proof (induction n)
  case 0
  show ?case by simp
next
  case (Suc n)
  note IH = Suc.IH
  have IHv: "moved 1 p q" if "wf_parser p" "parse_value n p = Return v q" for p v q
    using IH that by auto
  have IHl: "moved 1 p q" if "wf_parser p" "parse_list n p = Return v q" for p v q
    using IH that by auto
  have IHll: "moved 0 p q" if "wf_parser p" "list_loop n p a = Return v q" for p a v q
    using IH that by auto
  have IHo: "moved 1 p q" if "wf_parser p" "parse_object n p = Return v q" for p v q
    using IH that by auto
  have IHol: "moved 0 p q" if "wf_parser p" "object_loop n p a = Return v q" for p a v q
    using IH that by auto
  have IHf: "moved 1 p q" if "wf_parser p" "parse_function n p = Return v q" for p v q
    using IH that by auto
  have IHfl: "moved 0 p q" if "wf_parser p" "function_loop n nm p a = Return v q" for p nm a v q
    using IH that by auto
  have V: "moved 1 p q" if "wf_parser p" "parse_value (Suc n) p = Return v q" for p v q
    using that IHl IHo IHf
    by (auto split: option.splits if_splits sum.splits)
  have L: "moved 1 p q" if "wf_parser p" "parse_list (Suc n) p = Return v q" for p v q
  proof -
    from that(2) obtain u p1 els p2 u'
      where 1: "expect ''LBRACKET'' p = Return u p1"
        and 2: "list_loop n p1 [] = Return els p2"
        and 3: "expect ''RBRACKET'' p2 = Return u' q"
      by (auto simp: then_do_Return)
    from 1 have m1: "moved 1 p p1" by (rule expect_moved)
    from IHll [OF moved_wf [OF m1] 2] have m2: "moved 0 p1 p2" .
    from 3 have m3: "moved 1 p2 q" by (rule expect_moved)
    from moved_trans [OF moved_trans [OF m1 m2] m3] show ?thesis
      by (rule moved_less) simp
  qed
  have LL: "moved 0 p q" if "wf_parser p" "list_loop (Suc n) p a = Return v q" for p a v q
  proof (cases "current_token p")
    case None
    with that show ?thesis by (simp add: moved_refl)
  next
    case (Some t)
    show ?thesis
    proof (cases "type t = ''RBRACKET''")
      case True
      with Some that show ?thesis by (simp add: moved_refl)
    next
      case False
      with Some that(2) obtain x p1
        where 1: "parse_value n p = Return x p1"
          and 2: "list_loop n (skip_optional ''COMMA'' p1) (a @ [x]) = Return v q"
        by (auto simp: then_do_Return)
      from IHv [OF that(1) 1] have m1: "moved 1 p p1" .
      have m2: "moved 0 p1 (skip_optional ''COMMA'' p1)"
        by (rule moved_skip_optional) (rule moved_wf [OF m1])
      from IHll [OF moved_wf [OF m2] 2] have m3: "moved 0 (skip_optional ''COMMA'' p1) q" .
      from moved_trans [OF moved_trans [OF m1 m2] m3] show ?thesis
        by (rule moved_less) simp
    qed
  qed
  have O: "moved 1 p q" if "wf_parser p" "parse_object (Suc n) p = Return v q" for p v q
  proof -
    from that(2) obtain u p1 prs p2 u'
      where 1: "expect ''LBRACE'' p = Return u p1"
        and 2: "object_loop n p1 [] = Return prs p2"
        and 3: "expect ''RBRACE'' p2 = Return u' q"
      by (auto simp: then_do_Return)
    from 1 have m1: "moved 1 p p1" by (rule expect_moved)
    from IHol [OF moved_wf [OF m1] 2] have m2: "moved 0 p1 p2" .
    from 3 have m3: "moved 1 p2 q" by (rule expect_moved)
    from moved_trans [OF moved_trans [OF m1 m2] m3] show ?thesis
      by (rule moved_less) simp
  qed
  have OL: "moved 0 p q" if "wf_parser p" "object_loop (Suc n) p a = Return v q" for p a v q
  proof (cases "current_token p")
    case None
    with that show ?thesis by (simp add: moved_refl)
  next
    case (Some t)
    show ?thesis
    proof (cases "type t = ''RBRACE''")
      case True
      with Some that show ?thesis by (simp add: moved_refl)
    next
      case False
      with Some that(2) obtain u p1 u' p2 x p3
        where 1: "expect ''ID'' p = Return u p1"
          and 2: "expect ''COLON'' p1 = Return u' p2"
          and 3: "parse_value n p2 = Return x p3"
          and 4: "object_loop n (skip_optional ''COMMA'' p3) (a @ [(lexeme t, x)]) = Return v q"
        by (auto simp: then_do_Return)
      from 1 have m1: "moved 1 p p1" by (rule expect_moved)
      from 2 have m2: "moved 1 p1 p2" by (rule expect_moved)
      from IHv [OF moved_wf [OF m2] 3] have m3: "moved 1 p2 p3" .
      have m4: "moved 0 p3 (skip_optional ''COMMA'' p3)"
        by (rule moved_skip_optional) (rule moved_wf [OF m3])
      from IHol [OF moved_wf [OF m4] 4] have m5: "moved 0 (skip_optional ''COMMA'' p3) q" .
      from moved_trans [OF moved_trans [OF moved_trans [OF moved_trans [OF m1 m2] m3] m4] m5]
      show ?thesis by (rule moved_less) simp
    qed
  qed
  have F: "moved 1 p q" if "wf_parser p" "parse_function (Suc n) p = Return v q" for p v q
  proof -
    from that(2) obtain t :: "string Token" and u p1 args p2 u'
      where 1: "expect ''LPAREN'' (advance p) = Return u p1"
        and 2: "function_loop n (lexeme t) p1 [] = Return args p2"
        and 3: "expect ''RPAREN'' p2 = Return u' q"
      by (auto simp: then_do_Return split: option.splits)
    have m0: "moved 1 p (advance p)" by (rule moved_advance)
    from 1 have m1: "moved 1 (advance p) p1" by (rule expect_moved)
    from IHfl [OF moved_wf [OF m1] 2] have m2: "moved 0 p1 p2" .
    from 3 have m3: "moved 1 p2 q" by (rule expect_moved)
    from moved_trans [OF moved_trans [OF moved_trans [OF m0 m1] m2] m3] show ?thesis
      by (rule moved_less) simp
  qed
  have FL: "moved 0 p q" if "wf_parser p" "function_loop (Suc n) nm p a = Return v q" for p nm a v q
  proof (cases "current_token p")
    case None
    with that show ?thesis by (simp add: moved_refl)
  next
    case (Some t)
    show ?thesis
    proof (cases "type t = ''RPAREN''")
      case True
      with Some that show ?thesis by (simp add: moved_refl)
    next
      case False
      with Some that(2) obtain x p1
        where 1: "parse_value n p = Return x p1"
          and 2: "function_loop n nm (skip_optional ''COMMA'' p1) (a @ [x]) = Return v q"
        by (auto simp: then_do_Return Let_def split: option.splits)
      from IHv [OF that(1) 1] have m1: "moved 1 p p1" .
      have m2: "moved 0 p1 (skip_optional ''COMMA'' p1)"
        by (rule moved_skip_optional) (rule moved_wf [OF m1])
      from IHfl [OF moved_wf [OF m2] 2] have m3: "moved 0 (skip_optional ''COMMA'' p1) q" .
      from moved_trans [OF moved_trans [OF m1 m2] m3] show ?thesis
        by (rule moved_less) simp
    qed
  qed
  from V L LL O OL F FL show ?case by blast
qed

section \<open>The parser: the fuel suffices\<close>

lemma wf_current: "wf_parser p \<Longrightarrow> current_token p = Some t \<Longrightarrow> 0 < remaining p"
  by (auto simp: wf_parser_def remaining_def split: if_splits)


lemma moved_remaining: "moved k p q \<Longrightarrow> remaining q \<le> remaining p - k"
  by (auto simp: moved_def remaining_def)

lemma expect_current: "expect k p = Return u q \<Longrightarrow> \<exists>t. current_token p = Some t \<and> type t = k"
  by (auto simp: expect_def split: option.splits if_splits)

text \<open>
  No method runs out of fuel that is given three units for each token from \<^verbatim>\<open>pos\<close> on
  and a few more.
\<close>

lemma value_fuel:
  "(\<forall>p. wf_parser p \<longrightarrow> 3 * remaining p + 2 \<le> n \<longrightarrow> parse_value n p \<noteq> OutOfFuel) \<and>
   (\<forall>p. wf_parser p \<longrightarrow> 3 * remaining p + 1 \<le> n \<longrightarrow> parse_list n p \<noteq> OutOfFuel) \<and>
   (\<forall>p a. wf_parser p \<longrightarrow> 3 * remaining p + 3 \<le> n \<longrightarrow> list_loop n p a \<noteq> OutOfFuel) \<and>
   (\<forall>p. wf_parser p \<longrightarrow> 3 * remaining p + 1 \<le> n \<longrightarrow> parse_object n p \<noteq> OutOfFuel) \<and>
   (\<forall>p a. wf_parser p \<longrightarrow> 3 * remaining p + 3 \<le> n \<longrightarrow> object_loop n p a \<noteq> OutOfFuel) \<and>
   (\<forall>p. wf_parser p \<longrightarrow> 3 * remaining p + 1 \<le> n \<longrightarrow> parse_function n p \<noteq> OutOfFuel) \<and>
   (\<forall>p nm a. wf_parser p \<longrightarrow> 3 * remaining p + 3 \<le> n \<longrightarrow> function_loop n nm p a \<noteq> OutOfFuel)"
proof (induction n)
  case 0
  show ?case by simp
next
  case (Suc n)
  note IH = Suc.IH
  note prog = value_progress [of n]
  have IHv: "parse_value n p \<noteq> OutOfFuel" if "wf_parser p" "3 * remaining p + 2 \<le> n" for p
    using IH that by auto
  have IHl: "parse_list n p \<noteq> OutOfFuel" if "wf_parser p" "3 * remaining p + 1 \<le> n" for p
    using IH that by auto
  have IHll: "list_loop n p a \<noteq> OutOfFuel" if "wf_parser p" "3 * remaining p + 3 \<le> n" for p a
    using IH that by auto
  have IHo: "parse_object n p \<noteq> OutOfFuel" if "wf_parser p" "3 * remaining p + 1 \<le> n" for p
    using IH that by auto
  have IHol: "object_loop n p a \<noteq> OutOfFuel" if "wf_parser p" "3 * remaining p + 3 \<le> n" for p a
    using IH that by auto
  have IHf: "parse_function n p \<noteq> OutOfFuel" if "wf_parser p" "3 * remaining p + 1 \<le> n" for p
    using IH that by auto
  have IHfl: "function_loop n nm p a \<noteq> OutOfFuel"
    if "wf_parser p" "3 * remaining p + 3 \<le> n" for p nm a
    using IH that by auto
  have Pv: "moved 1 p q" if "wf_parser p" "parse_value n p = Return v q" for p v q
    using prog that by auto
  have V: "parse_value (Suc n) p \<noteq> OutOfFuel"
    if "wf_parser p" "3 * remaining p + 2 \<le> Suc n" for p
  proof
    assume o: "parse_value (Suc n) p = OutOfFuel"
    then obtain t where t: "current_token p = Some t"
      by (auto split: option.splits)
    from o t have "parse_list n p = OutOfFuel \<or> parse_object n p = OutOfFuel \<or>
        parse_function n p = OutOfFuel"
      by (auto split: if_splits sum.splits)
    with IHl [OF that(1)] IHo [OF that(1)] IHf [OF that(1)] that(2) show False by auto
  qed
  have L: "parse_list (Suc n) p \<noteq> OutOfFuel"
    if "wf_parser p" "3 * remaining p + 1 \<le> Suc n" for p
  proof
    assume "parse_list (Suc n) p = OutOfFuel"
    then obtain u p1 where 1: "expect ''LBRACKET'' p = Return u p1"
      and 2: "list_loop n p1 [] = OutOfFuel"
      by (auto simp: then_do_OutOfFuel)
    from 1 have m: "moved 1 p p1" by (rule expect_moved)
    from 1 obtain t where "current_token p = Some t" using expect_current by blast
    with that(1) have "0 < remaining p" by (rule wf_current)
    with moved_remaining [OF m] that(2) have "3 * remaining p1 + 3 \<le> n" by simp
    with IHll [OF moved_wf [OF m]] 2 show False by blast
  qed
  have LL: "list_loop (Suc n) p a \<noteq> OutOfFuel"
    if "wf_parser p" "3 * remaining p + 3 \<le> Suc n" for p a
  proof
    assume o: "list_loop (Suc n) p a = OutOfFuel"
    then obtain t where t: "current_token p = Some t"
      by (auto split: option.splits)
    from that(1) t have r: "0 < remaining p" by (rule wf_current)
    from o t have "parse_value n p = OutOfFuel \<or>
        (\<exists>x p1. parse_value n p = Return x p1 \<and>
           list_loop n (skip_optional ''COMMA'' p1) (a @ [x]) = OutOfFuel)"
      by (auto simp: then_do_OutOfFuel split: if_splits)
    then show False
    proof
      assume "parse_value n p = OutOfFuel"
      with IHv [OF that(1)] that(2) show False by simp
    next
      assume "\<exists>x p1. parse_value n p = Return x p1 \<and>
           list_loop n (skip_optional ''COMMA'' p1) (a @ [x]) = OutOfFuel"
      then obtain x p1 where 1: "parse_value n p = Return x p1"
        and 2: "list_loop n (skip_optional ''COMMA'' p1) (a @ [x]) = OutOfFuel"
        by blast
      from Pv [OF that(1) 1] have m1: "moved 1 p p1" .
      have m2: "moved 0 p1 (skip_optional ''COMMA'' p1)"
        by (rule moved_skip_optional) (rule moved_wf [OF m1])
      from moved_remaining [OF m1] moved_remaining [OF m2] r that(2)
      have "3 * remaining (skip_optional ''COMMA'' p1) + 3 \<le> n" by simp
      with IHll [OF moved_wf [OF m2]] 2 show False by blast
    qed
  qed
  have O: "parse_object (Suc n) p \<noteq> OutOfFuel"
    if "wf_parser p" "3 * remaining p + 1 \<le> Suc n" for p
  proof
    assume "parse_object (Suc n) p = OutOfFuel"
    then obtain u p1 where 1: "expect ''LBRACE'' p = Return u p1"
      and 2: "object_loop n p1 [] = OutOfFuel"
      by (auto simp: then_do_OutOfFuel)
    from 1 have m: "moved 1 p p1" by (rule expect_moved)
    from 1 obtain t where "current_token p = Some t" using expect_current by blast
    with that(1) have "0 < remaining p" by (rule wf_current)
    with moved_remaining [OF m] that(2) have "3 * remaining p1 + 3 \<le> n" by simp
    with IHol [OF moved_wf [OF m]] 2 show False by blast
  qed
  have OL: "object_loop (Suc n) p a \<noteq> OutOfFuel"
    if "wf_parser p" "3 * remaining p + 3 \<le> Suc n" for p a
  proof
    assume o: "object_loop (Suc n) p a = OutOfFuel"
    then obtain t where t: "current_token p = Some t"
      by (auto split: option.splits)
    from that(1) t have r: "0 < remaining p" by (rule wf_current)
    from o t obtain u p1 u' p2 where e1: "expect ''ID'' p = Return u p1"
      and e2: "expect ''COLON'' p1 = Return u' p2"
      and d: "parse_value n p2 = OutOfFuel \<or>
        (\<exists>x p3. parse_value n p2 = Return x p3 \<and>
           object_loop n (skip_optional ''COMMA'' p3) (a @ [(lexeme t, x)]) = OutOfFuel)"
      by (auto simp: then_do_OutOfFuel split: if_splits)
    from e1 have m1: "moved 1 p p1" by (rule expect_moved)
    from e2 have m2: "moved 1 p1 p2" by (rule expect_moved)
    from d show False
    proof
      assume "parse_value n p2 = OutOfFuel"
      moreover from moved_remaining [OF m1] moved_remaining [OF m2] that(2)
      have "3 * remaining p2 + 2 \<le> n" by simp
      ultimately show False using IHv [OF moved_wf [OF m2]] by blast
    next
      assume "\<exists>x p3. parse_value n p2 = Return x p3 \<and>
           object_loop n (skip_optional ''COMMA'' p3) (a @ [(lexeme t, x)]) = OutOfFuel"
      then obtain x p3 where 1: "parse_value n p2 = Return x p3"
        and 2: "object_loop n (skip_optional ''COMMA'' p3) (a @ [(lexeme t, x)]) = OutOfFuel"
        by blast
      from Pv [OF moved_wf [OF m2] 1] have m3: "moved 1 p2 p3" .
      have m4: "moved 0 p3 (skip_optional ''COMMA'' p3)"
        by (rule moved_skip_optional) (rule moved_wf [OF m3])
      from moved_remaining [OF m1] moved_remaining [OF m2] moved_remaining [OF m3]
        moved_remaining [OF m4] r that(2)
      have "3 * remaining (skip_optional ''COMMA'' p3) + 3 \<le> n" by simp
      with IHol [OF moved_wf [OF m4]] 2 show False by blast
    qed
  qed
  have F: "parse_function (Suc n) p \<noteq> OutOfFuel"
    if "wf_parser p" "3 * remaining p + 1 \<le> Suc n" for p
  proof
    assume o: "parse_function (Suc n) p = OutOfFuel"
    then obtain t where t: "current_token p = Some t"
      by (auto split: option.splits)
    from o t obtain u p1 where 1: "expect ''LPAREN'' (advance p) = Return u p1"
      and 2: "function_loop n (lexeme t) p1 [] = OutOfFuel"
      by (auto simp: then_do_OutOfFuel)
    have m0: "moved 1 p (advance p)" by (rule moved_advance)
    from 1 have m: "moved 1 (advance p) p1" by (rule expect_moved)
    from that(1) t have "0 < remaining p" by (rule wf_current)
    with moved_remaining [OF m0] moved_remaining [OF m] that(2)
    have "3 * remaining p1 + 3 \<le> n" by simp
    with IHfl [OF moved_wf [OF m]] 2 show False by blast
  qed
  have FL: "function_loop (Suc n) nm p a \<noteq> OutOfFuel"
    if "wf_parser p" "3 * remaining p + 3 \<le> Suc n" for p nm a
  proof
    assume o: "function_loop (Suc n) nm p a = OutOfFuel"
    then obtain t where t: "current_token p = Some t"
      by (auto split: option.splits)
    from that(1) t have r: "0 < remaining p" by (rule wf_current)
    from o t have "parse_value n p = OutOfFuel \<or>
        (\<exists>x p1. parse_value n p = Return x p1 \<and>
           function_loop n nm (skip_optional ''COMMA'' p1) (a @ [x]) = OutOfFuel)"
      by (auto simp: then_do_OutOfFuel Let_def split: if_splits option.splits)
    then show False
    proof
      assume "parse_value n p = OutOfFuel"
      with IHv [OF that(1)] that(2) show False by simp
    next
      assume "\<exists>x p1. parse_value n p = Return x p1 \<and>
           function_loop n nm (skip_optional ''COMMA'' p1) (a @ [x]) = OutOfFuel"
      then obtain x p1 where 1: "parse_value n p = Return x p1"
        and 2: "function_loop n nm (skip_optional ''COMMA'' p1) (a @ [x]) = OutOfFuel"
        by blast
      from Pv [OF that(1) 1] have m1: "moved 1 p p1" .
      have m2: "moved 0 p1 (skip_optional ''COMMA'' p1)"
        by (rule moved_skip_optional) (rule moved_wf [OF m1])
      from moved_remaining [OF m1] moved_remaining [OF m2] r that(2)
      have "3 * remaining (skip_optional ''COMMA'' p1) + 3 \<le> n" by simp
      with IHfl [OF moved_wf [OF m2]] 2 show False by blast
    qed
  qed
  from V L LL O OL F FL show ?case by blast
qed

section \<open>The parser: blocks\<close>

text \<open>The ways in which one round of the loop of \<^verbatim>\<open>parse_block\<close> returns.\<close>

lemma block_loop_Return_cases:
  assumes "block_loop (Suc n) p b = Return v q"
  obtains (stop) "v = b" "q = p"
  | (assign) t x p2 where "current_token p = Some t"
      "parse_value n (advance (advance p)) = Return x p2"
      "block_loop n (skip_optional ''SEMICOLON'' p2)
         (append_statement b (AssignNode (lexeme t) x)) = Return v q"
  | (nested) t sub p2 u p3 where "current_token p = Some t"
      "parse_block n (advance (advance p)) = Return sub p2"
      "expect ''RBRACE'' p2 = Return u p3"
      "block_loop n p3 (append_statement b (set_name (lexeme t) sub)) = Return v q"
  | (error) m where "block_loop n (advance (add_error (advance p) m)) b = Return v q"
  | (skip) "block_loop n (advance p) b = Return v q"
proof (cases "current_token p")
  case None
  with assms have "v = b" "q = p" by simp_all
  then show ?thesis by (rule stop)
next
  case (Some t)
  show ?thesis
  proof (cases "type t = ''RBRACE'' \<or> type t = ''EOF''")
    case True
    with assms Some have "v = b" "q = p" by auto
    then show ?thesis by (rule stop)
  next
    case no_end: False
    show ?thesis
    proof (cases "type t = ''ID'' \<or> isupper (type t)")
      case False
      with assms Some no_end have "block_loop n (advance p) b = Return v q" by simp
      then show ?thesis by (rule skip)
    next
      case key: True
      show ?thesis
      proof (cases "current_is ''EQUAL'' (advance p)")
        case True
        with assms Some no_end key
        have "then_do (parse_value n (advance (advance p)))
                (\<lambda>x p2. block_loop n (skip_optional ''SEMICOLON'' p2)
                   (append_statement b (AssignNode (lexeme t) x))) = Return v q"
          by (simp add: Let_def)
        then obtain x p2 where "parse_value n (advance (advance p)) = Return x p2"
          "block_loop n (skip_optional ''SEMICOLON'' p2)
             (append_statement b (AssignNode (lexeme t) x)) = Return v q"
          unfolding then_do_Return by blast
        with Some show ?thesis by (rule assign)
      next
        case no_eq: False
        show ?thesis
        proof (cases "current_is ''LBRACE'' (advance p)")
          case True
          with assms Some no_end key no_eq
          have "then_do (parse_block n (advance (advance p)))
                  (\<lambda>sub p2. then_do (expect ''RBRACE'' p2)
                     (\<lambda>u p3. block_loop n p3
                        (append_statement b (set_name (lexeme t) sub)))) = Return v q"
            by (simp add: Let_def)
          then obtain sub p2 u p3 where "parse_block n (advance (advance p)) = Return sub p2"
            "expect ''RBRACE'' p2 = Return u p3"
            "block_loop n p3 (append_statement b (set_name (lexeme t) sub)) = Return v q"
            unfolding then_do_Return by blast
          with Some show ?thesis by (rule nested)
        next
          case False
          with assms Some no_end key no_eq
          have "\<exists>m. block_loop n (advance (add_error (advance p) m)) b = Return v q"
            by (cases "current_token (advance p)") (auto simp: Let_def)
          then show ?thesis using error by blast
        qed
      qed
    qed
  qed
qed

text \<open>The ways in which one round of the loop of \<^verbatim>\<open>parse_block\<close> runs out of fuel.\<close>

lemma block_loop_OutOfFuel_cases:
  assumes "block_loop (Suc n) p b = OutOfFuel"
  obtains (val) t where "current_token p = Some t"
      "parse_value n (advance (advance p)) = OutOfFuel"
  | (assign) t x p2 b' where "current_token p = Some t"
      "parse_value n (advance (advance p)) = Return x p2"
      "block_loop n (skip_optional ''SEMICOLON'' p2) b' = OutOfFuel"
  | (block) t where "current_token p = Some t"
      "parse_block n (advance (advance p)) = OutOfFuel"
  | (nested) t sub p2 u p3 b' where "current_token p = Some t"
      "parse_block n (advance (advance p)) = Return sub p2"
      "expect ''RBRACE'' p2 = Return u p3"
      "block_loop n p3 b' = OutOfFuel"
  | (error) t m where "current_token p = Some t"
      "block_loop n (advance (add_error (advance p) m)) b = OutOfFuel"
  | (skip) t where "current_token p = Some t" "block_loop n (advance p) b = OutOfFuel"
proof (cases "current_token p")
  case None
  with assms show ?thesis by simp
next
  case (Some t)
  show ?thesis
  proof (cases "type t = ''RBRACE'' \<or> type t = ''EOF''")
    case True
    with assms Some show ?thesis by auto
  next
    case no_end: False
    show ?thesis
    proof (cases "type t = ''ID'' \<or> isupper (type t)")
      case False
      with assms Some no_end have "block_loop n (advance p) b = OutOfFuel" by simp
      with Some show ?thesis by (rule skip)
    next
      case key: True
      show ?thesis
      proof (cases "current_is ''EQUAL'' (advance p)")
        case True
        with assms Some no_end key
        have "then_do (parse_value n (advance (advance p)))
                (\<lambda>x p2. block_loop n (skip_optional ''SEMICOLON'' p2)
                   (append_statement b (AssignNode (lexeme t) x))) = OutOfFuel"
          by (simp add: Let_def)
        then have "parse_value n (advance (advance p)) = OutOfFuel \<or>
            (\<exists>x p2 b'. parse_value n (advance (advance p)) = Return x p2 \<and>
               block_loop n (skip_optional ''SEMICOLON'' p2) b' = OutOfFuel)"
          unfolding then_do_OutOfFuel by blast
        with Some show ?thesis using val assign by blast
      next
        case no_eq: False
        show ?thesis
        proof (cases "current_is ''LBRACE'' (advance p)")
          case True
          with assms Some no_end key no_eq
          have "then_do (parse_block n (advance (advance p)))
                  (\<lambda>sub p2. then_do (expect ''RBRACE'' p2)
                     (\<lambda>u p3. block_loop n p3
                        (append_statement b (set_name (lexeme t) sub)))) = OutOfFuel"
            by (simp add: Let_def)
          then have "parse_block n (advance (advance p)) = OutOfFuel \<or>
              (\<exists>sub p2 u p3 b'. parse_block n (advance (advance p)) = Return sub p2 \<and>
                 expect ''RBRACE'' p2 = Return u p3 \<and> block_loop n p3 b' = OutOfFuel)"
            unfolding then_do_OutOfFuel by (auto simp: then_do_OutOfFuel)
          with Some show ?thesis using block nested by blast
        next
          case False
          with assms Some no_end key no_eq
          have "\<exists>m. block_loop n (advance (add_error (advance p) m)) b = OutOfFuel"
            by (cases "current_token (advance p)") (auto simp: Let_def)
          with Some show ?thesis using error by blast
        qed
      qed
    qed
  qed
qed

lemma moved_advance2: "moved 2 p (advance (advance p))"
  by simp

lemma block_progress:
  "(\<forall>p v q. wf_parser p \<longrightarrow> parse_block n p = Return v q \<longrightarrow> moved 0 p q) \<and>
   (\<forall>p b v q. wf_parser p \<longrightarrow> block_loop n p b = Return v q \<longrightarrow> moved 0 p q)"
proof (induction n)
  case 0
  show ?case by simp
next
  case (Suc n)
  note IH = Suc.IH
  have IHb: "moved 0 p q" if "wf_parser p" "parse_block n p = Return v q" for p v q
    using IH that by auto
  have IHbl: "moved 0 p q" if "wf_parser p" "block_loop n p b = Return v q" for p b v q
    using IH that by auto
  have Pv: "moved 1 p q" if "wf_parser p" "parse_value n p = Return v q" for p v q
    using value_progress [of n] that by auto
  have B: "moved 0 p q" if "wf_parser p" "parse_block (Suc n) p = Return v q" for p v q
    using that IHbl by simp
  have BL: "moved 0 p q" if "wf_parser p" "block_loop (Suc n) p b = Return v q" for p b v q
    using that(2)
  proof (cases rule: block_loop_Return_cases)
    case stop
    with that(1) show ?thesis by (simp add: moved_refl)
  next
    case (assign t x p2)
    have m0: "moved 2 p (advance (advance p))" by (rule moved_advance2)
    from Pv [OF moved_wf [OF m0] assign(2)] have m1: "moved 1 (advance (advance p)) p2" .
    have m2: "moved 0 p2 (skip_optional ''SEMICOLON'' p2)"
      by (rule moved_skip_optional) (rule moved_wf [OF m1])
    from IHbl [OF moved_wf [OF m2] assign(3)]
    have m3: "moved 0 (skip_optional ''SEMICOLON'' p2) q" .
    from moved_trans [OF moved_trans [OF moved_trans [OF m0 m1] m2] m3] show ?thesis
      by (rule moved_less) simp
  next
    case (nested t sub p2 u p3)
    have m0: "moved 2 p (advance (advance p))" by (rule moved_advance2)
    from IHb [OF moved_wf [OF m0] nested(2)] have m1: "moved 0 (advance (advance p)) p2" .
    from nested(3) have m2: "moved 1 p2 p3" by (rule expect_moved)
    from IHbl [OF moved_wf [OF m2] nested(4)] have m3: "moved 0 p3 q" .
    from moved_trans [OF moved_trans [OF moved_trans [OF m0 m1] m2] m3] show ?thesis
      by (rule moved_less) simp
  next
    case (error m)
    have m0: "moved 2 p (advance (add_error (advance p) m))" by simp
    from IHbl [OF moved_wf [OF m0] error] have "moved 0 (advance (add_error (advance p) m)) q" .
    from moved_trans [OF m0 this] show ?thesis by (rule moved_less) simp
  next
    case skip
    have m0: "moved 1 p (advance p)" by (rule moved_advance)
    from IHbl [OF moved_wf [OF m0] skip] have "moved 0 (advance p) q" .
    from moved_trans [OF m0 this] show ?thesis by (rule moved_less) simp
  qed
  from B BL show ?case by blast
qed

lemma block_fuel:
  "(\<forall>p. wf_parser p \<longrightarrow> 3 * remaining p + 2 \<le> n \<longrightarrow> parse_block n p \<noteq> OutOfFuel) \<and>
   (\<forall>p b. wf_parser p \<longrightarrow> 3 * remaining p + 1 \<le> n \<longrightarrow> block_loop n p b \<noteq> OutOfFuel)"
proof (induction n)
  case 0
  show ?case by simp
next
  case (Suc n)
  note IH = Suc.IH
  have IHb: "parse_block n p \<noteq> OutOfFuel" if "wf_parser p" "3 * remaining p + 2 \<le> n" for p
    using IH that by auto
  have IHbl: "block_loop n p b \<noteq> OutOfFuel" if "wf_parser p" "3 * remaining p + 1 \<le> n" for p b
    using IH that by auto
  have Fv: "parse_value n p \<noteq> OutOfFuel" if "wf_parser p" "3 * remaining p + 2 \<le> n" for p
    using value_fuel [of n] that by auto
  have Pv: "moved 1 p q" if "wf_parser p" "parse_value n p = Return v q" for p v q
    using value_progress [of n] that by auto
  have Pb: "moved 0 p q" if "wf_parser p" "parse_block n p = Return v q" for p v q
    using block_progress [of n] that by auto
  have B: "parse_block (Suc n) p \<noteq> OutOfFuel"
    if "wf_parser p" "3 * remaining p + 2 \<le> Suc n" for p
    using that IHbl by simp
  have BL: "block_loop (Suc n) p b \<noteq> OutOfFuel"
    if "wf_parser p" "3 * remaining p + 1 \<le> Suc n" for p b
  proof
    have m0: "moved 2 p (advance (advance p))" by (rule moved_advance2)
    assume "block_loop (Suc n) p b = OutOfFuel"
    then show False
    proof (cases rule: block_loop_OutOfFuel_cases)
      case (val t)
      from that(1) val(1) have "0 < remaining p" by (rule wf_current)
      with moved_remaining [OF m0] that(2)
      have "3 * remaining (advance (advance p)) + 2 \<le> n" by simp
      with Fv [OF moved_wf [OF m0]] val(2) show False by blast
    next
      case (assign t x p2 b')
      from that(1) assign(1) have r: "0 < remaining p" by (rule wf_current)
      from Pv [OF moved_wf [OF m0] assign(2)] have m1: "moved 1 (advance (advance p)) p2" .
      have m2: "moved 0 p2 (skip_optional ''SEMICOLON'' p2)"
        by (rule moved_skip_optional) (rule moved_wf [OF m1])
      from moved_remaining [OF m0] moved_remaining [OF m1] moved_remaining [OF m2] r that(2)
      have "3 * remaining (skip_optional ''SEMICOLON'' p2) + 1 \<le> n" by simp
      with IHbl [OF moved_wf [OF m2]] assign(3) show False by blast
    next
      case (block t)
      from that(1) block(1) have "0 < remaining p" by (rule wf_current)
      with moved_remaining [OF m0] that(2)
      have "3 * remaining (advance (advance p)) + 2 \<le> n" by simp
      with IHb [OF moved_wf [OF m0]] block(2) show False by blast
    next
      case (nested t sub p2 u p3 b')
      from that(1) nested(1) have r: "0 < remaining p" by (rule wf_current)
      from Pb [OF moved_wf [OF m0] nested(2)] have m1: "moved 0 (advance (advance p)) p2" .
      from nested(3) have m2: "moved 1 p2 p3" by (rule expect_moved)
      from moved_remaining [OF m0] moved_remaining [OF m1] moved_remaining [OF m2] r that(2)
      have "3 * remaining p3 + 1 \<le> n" by simp
      with IHbl [OF moved_wf [OF m2]] nested(4) show False by blast
    next
      case (error t m)
      from that(1) error(1) have r: "0 < remaining p" by (rule wf_current)
      have m1: "moved 2 p (advance (add_error (advance p) m))" by simp
      from moved_remaining [OF m1] r that(2)
      have "3 * remaining (advance (add_error (advance p) m)) + 1 \<le> n" by simp
      with IHbl [OF moved_wf [OF m1]] error(2) show False by blast
    next
      case (skip t)
      from that(1) skip(1) have r: "0 < remaining p" by (rule wf_current)
      have m1: "moved 1 p (advance p)" by (rule moved_advance)
      from moved_remaining [OF m1] r that(2)
      have "3 * remaining (advance p) + 1 \<le> n" by simp
      with IHbl [OF moved_wf [OF m1]] skip(2) show False by blast
    qed
  qed
  from B BL show ?case by blast
qed



section \<open>The parser: \<^verbatim>\<open>parse\<close>\<close>

lemma Parser_wf: "Parser toks = Inr p \<Longrightarrow> wf_parser p \<and> tokens p = toks \<and> pos p = 0 \<and> errors p = []"
  by (auto simp: Parser_def wf_parser_def split: list.splits)


lemma parse_game_OutOfFuel:
  assumes "parse_game n p = OutOfFuel"
  shows "\<exists>p3. moved 0 (advance p) p3 \<and> parse_block n p3 = OutOfFuel"
proof -
  from assms obtain t where t: "current_token p = Some t"
    by (auto simp: parse_game_def split: option.splits)
  let ?p1 = "advance p"
  let ?named = "case current_token ?p1 of None \<Rightarrow> False
                | Some u \<Rightarrow> type u = ''STRING'' \<or> type u = ''ID''"
  let ?p2 = "if ?named then advance ?p1 else ?p1"
  from assms t obtain u p3 where e: "expect ''LBRACE'' ?p2 = Return u p3"
    and o: "parse_block n p3 = OutOfFuel"
    unfolding parse_game_def Let_def
    by (auto simp: then_do_OutOfFuel split: if_splits)
  have "moved 0 ?p1 ?p2" by (simp add: moved_def)
  moreover from e have "moved 1 ?p2 p3" by (rule expect_moved)
  ultimately have "moved (0 + 1) ?p1 p3" by (rule moved_trans)
  then have "moved 0 ?p1 p3" by (rule moved_less) simp
  with o show ?thesis by blast
qed

text \<open>
  The fuel that \<^verbatim>\<open>parse\<close> starts with suffices: on every token list the driver gets a
  tree, \<^verbatim>\<open>None\<close> or an exception.
\<close>

lemma parse_game_fuel: "wf_parser p \<Longrightarrow> parse_game (fuel p) p \<noteq> OutOfFuel"
proof
  assume wf: "wf_parser p" and "parse_game (fuel p) p = OutOfFuel"
  then obtain p3 where m: "moved 0 (advance p) p3" and o: "parse_block (fuel p) p3 = OutOfFuel"
    using parse_game_OutOfFuel by blast
  have "remaining p3 \<le> length (tokens p)"
    using moved_remaining [OF m] by (simp add: remaining_def)
  moreover from m have "tokens p3 = tokens p" by (simp add: moved_def)
  ultimately have "3 * remaining p3 + 2 \<le> fuel p" by (simp add: fuel_def)
  with block_fuel [of "fuel p"] moved_wf [OF m] o show False by blast
qed

lemma run_parser_finishes: "run_parser toks \<noteq> Unfinished"
proof (cases "Parser toks")
  case (Inl e)
  then show ?thesis by (simp add: run_parser_def)
next
  case (Inr p)
  then have "wf_parser p" by (simp add: Parser_wf)
  then have "parse_game (fuel p) p \<noteq> OutOfFuel" by (rule parse_game_fuel)
  with Inr show ?thesis
    by (auto simp: run_parser_def parse_def split: outcome.splits)
qed



section \<open>The parser: exceptions\<close>





section \<open>The parser: a call that is never closed\<close>








text \<open>
  A token list of \<^verbatim>\<open>GameLexer\<close> has valid numbers when no integer literal of the text
  has more than 4300 digits: a token of type \<^verbatim>\<open>NUMBER\<close> comes from a match of the number
  pattern only, since no keyword is spelled \<^verbatim>\<open>number\<close>.
\<close>

lemma keyword_not_number: "l \<in> set game_keywords \<Longrightarrow> upper l \<noteq> ''NUMBER''"
proof -
  have "list_all (\<lambda>l. upper l \<noteq> ''NUMBER'') game_keywords" by code_simp
  then show "l \<in> set game_keywords \<Longrightarrow> upper l \<noteq> ''NUMBER''"
    by (simp add: list_all_iff)
qed

lemma game_number_pattern:
  "first_match game_token_specification prev s = Some (''NUMBER'', m) \<Longrightarrow>
     re_number prev s = Some m"
  by (drule first_match_source) (auto simp: game_token_specification_def)

lemma game_numbers_valid:
  assumes "mo \<in> set (finditer game_token_specification prev off s)"
    and "lastgroup mo = ''NUMBER''"
    and "CHR ''.'' \<in> set (group mo) \<or> length (group mo) \<le> int_max_str_digits"
  shows "\<exists>v. number_value (Some int_max_str_digits) (group mo) = Inr v"
proof -
  from finditer_source [OF assms(1)] assms(2) obtain prev' s'
    where "first_match game_token_specification prev' s' = Some (''NUMBER'', group mo)"
    by auto
  then have "re_number prev' s' = Some (group mo)" by (rule game_number_pattern)
  then show ?thesis by (rule re_number_valid) (use assms(3) in simp)
qed

lemma game_step_valid_numbers:
  assumes "valid_numbers (tokens_acc lx)"
    and "lastgroup mo = ''NUMBER'' \<Longrightarrow>
           \<exists>v. number_value (Some int_max_str_digits) (group mo) = Inr v"
  shows "valid_numbers (tokens_acc (game_step mo lx))"
proof (cases "lastgroup mo = ''NUMBER''")
  case True
  with assms(2) obtain v where "number_value (Some int_max_str_digits) (group mo) = Inr v"
    by blast
  with True assms(1) show ?thesis
    by (simp add: game_step_def Let_def valid_numbers_def)
next
  case False
  with assms(1) show ?thesis
    by (auto simp: game_step_def Let_def valid_numbers_def keyword_not_number)
qed

lemma fold_game_step_valid_numbers:
  assumes "\<And>mo. mo \<in> set ms \<Longrightarrow> lastgroup mo = ''NUMBER'' \<Longrightarrow>
             \<exists>v. number_value (Some int_max_str_digits) (group mo) = Inr v"
    and "valid_numbers (tokens_acc lx)"
  shows "valid_numbers (tokens_acc (fold game_step ms lx))"
  using assms
proof (induction ms arbitrary: lx)
  case Nil
  then show ?case by simp
next
  case (Cons mo ms)
  have "valid_numbers (tokens_acc (game_step mo lx))"
    by (rule game_step_valid_numbers) (use Cons.prems in auto)
  then have "valid_numbers (tokens_acc (fold game_step ms (game_step mo lx)))"
    by (intro Cons.IH) (use Cons.prems in auto)
  then show ?case by simp
qed

lemma game_tokenize_valid_numbers:
  assumes "\<And>mo. mo \<in> set (finditer game_token_specification None 0 code) \<Longrightarrow>
             lastgroup mo = ''NUMBER'' \<Longrightarrow>
             CHR ''.'' \<in> set (group mo) \<or> length (group mo) \<le> int_max_str_digits"
  shows "valid_numbers (fst (game_tokenize code))"
proof -
  have "valid_numbers (tokens_acc (game_scan code))"
    unfolding game_scan_def
  proof (rule fold_game_step_valid_numbers)
    fix mo
    assume "mo \<in> set (finditer game_token_specification None 0 code)"
      and "lastgroup mo = ''NUMBER''"
    then show "\<exists>v. number_value (Some int_max_str_digits) (group mo) = Inr v"
      using assms by (intro game_numbers_valid) auto
  next
    show "valid_numbers (tokens_acc game_lexer_init)"
      by (simp add: game_lexer_init_def valid_numbers_def)
  qed
  then show ?thesis
    by (simp add: game_tokenize_def Let_def valid_numbers_def)
qed
section \<open>The parser: what is passed up from a call\<close>





















section \<open>The examples of the specification, run\<close>

text \<open>
  C5. The source \<^verbatim>\<open>game g { a = 1 @ b = 2 }\<close>, through \<^verbatim>\<open>GameLexer\<close> and \<^verbatim>\<open>Parser\<close>:
  the lexer records one lexical error, for \<^verbatim>\<open>@\<close> at line 1, column 16, emits no token
  for it and goes on to the end of the text; the parser records nothing and returns the
  game \<^verbatim>\<open>g\<close> whose block holds the assignments \<^verbatim>\<open>a = 1\<close> and \<^verbatim>\<open>b = 2\<close>.
\<close>

theorem stray_character_recovery:
  "game_tokenize ''game g { a = 1 @ b = 2 }'' =
     ([\<lparr>type = ''GAME'', lexeme = ''game'', line = 1, col = 1\<rparr>,
       \<lparr>type = ''ID'', lexeme = ''g'', line = 1, col = 6\<rparr>,
       \<lparr>type = ''LBRACE'', lexeme = ''{'', line = 1, col = 8\<rparr>,
       \<lparr>type = ''ID'', lexeme = ''a'', line = 1, col = 10\<rparr>,
       \<lparr>type = ''EQUAL'', lexeme = ''='', line = 1, col = 12\<rparr>,
       \<lparr>type = ''NUMBER'', lexeme = ''1'', line = 1, col = 14\<rparr>,
       \<lparr>type = ''ID'', lexeme = ''b'', line = 1, col = 18\<rparr>,
       \<lparr>type = ''EQUAL'', lexeme = ''='', line = 1, col = 20\<rparr>,
       \<lparr>type = ''NUMBER'', lexeme = ''2'', line = 1, col = 22\<rparr>,
       \<lparr>type = ''RBRACE'', lexeme = ''}'', line = 1, col = 24\<rparr>,
       \<lparr>type = ''EOF'', lexeme = [], line = 1, col = 24\<rparr>],
      [LexicalError ''@'' 1 16]) \<and>
   analyse ''game g { a = 1 @ b = 2 }'' =
     ([LexicalError ''@'' 1 16],
      Parsed (Some (GameNode (Some ''g'')
                (BlockNode ''block''
                   [AssignNode ''a'' (ValueNode (PyInt 1)),
                    AssignNode ''b'' (ValueNode (PyInt 2))]))) [])"
  by code_simp

text \<open>
  C7. The source \<^verbatim>\<open>game g { tablero { filas = 10 columnas = 5 } }\<close> parses, with no
  diagnostic, to a game whose body holds one block; that block has the name
  \<^verbatim>\<open>tablero\<close>, the key before its brace, and holds the assignments \<^verbatim>\<open>filas = 10\<close> and
  \<^verbatim>\<open>columnas = 5\<close>, in that order.
\<close>

theorem nested_named_block:
  "analyse ''game g { tablero { filas = 10 columnas = 5 } }'' =
     ([],
      Parsed (Some (GameNode (Some ''g'')
                (BlockNode ''block''
                   [BlockNode ''tablero''
                      [AssignNode ''filas'' (ValueNode (PyInt 10)),
                       AssignNode ''columnas'' (ValueNode (PyInt 5))]]))) [])"
  by code_simp

text \<open>
  C1, as stated, fails. On \<^verbatim>\<open>game g { size = [1,2,3] colors: red }\<close> the parser records
  three diagnostics and \<^verbatim>\<open>parse\<close> returns \<^verbatim>\<open>None\<close>: after \<^verbatim>\<open>colors\<close> it finds \<^verbatim>\<open>:\<close>,
  records the first and passes over the \<^verbatim>\<open>:\<close>; it then takes \<^verbatim>\<open>red\<close> as a key, finds
  \<^verbatim>\<open>}\<close>, records the second and passes over the \<^verbatim>\<open>}\<close>; the block ends at \<^verbatim>\<open>EOF\<close>, where
  \<^verbatim>\<open>expect('RBRACE')\<close> records the third and raises.
\<close>

theorem colors_red_counterexample:
  "analyse ''game g { size = [1,2,3] colors: red }'' =
     ([],
      Parsed None
        [ExpectedEqualOrBrace ''colors'' 1 31,
         ExpectedEqualOrBrace ''red'' 1 37,
         ExpectedButFound 1 37 ''RBRACE'' []])"
  by code_simp

text \<open>
  C1, amended. On \<^verbatim>\<open>game g { size = [1,2,3] colors: red }\<close>, \<^verbatim>\<open>parse_block\<close>, called
  as \<^verbatim>\<open>parse_game\<close> calls it after \<^verbatim>\<open>game g {\<close>, returns a block whose one statement
  assigns to \<^verbatim>\<open>size\<close> the list of the integers 1, 2, 3, and has recorded two diagnostics
  for \<^verbatim>\<open>colors: red\<close>, one after \<^verbatim>\<open>colors\<close> and one after \<^verbatim>\<open>red\<close>, going on after
  each.
\<close>

theorem colors_red_block_scan:
  "(case Parser (fst (game_tokenize ''game g { size = [1,2,3] colors: red }'')) of
      Inl e \<Rightarrow> False
    | Inr p \<Rightarrow>
        returned (parse_block (fuel p) (advance (advance (advance p)))) =
          Some (BlockNode ''block''
                  [AssignNode ''size''
                     (ListNode [ValueNode (PyInt 1), ValueNode (PyInt 2), ValueNode (PyInt 3)])]) \<and>
        syntax_errors (parse_block (fuel p) (advance (advance (advance p)))) =
          [ExpectedEqualOrBrace ''colors'' 1 31, ExpectedEqualOrBrace ''red'' 1 37])"
  by code_simp

text \<open>
  C2 fails on the code. Every token type is an upper-case name, so \<^verbatim>\<open>type.isupper()\<close>
  holds of \<^verbatim>\<open>NUMBER\<close>, \<^verbatim>\<open>EQUAL\<close> and the rest, and \<^verbatim>\<open>parse_block\<close> takes every token
  as a key. On \<^verbatim>\<open>game g { 5 a = 1 }\<close> the \<^verbatim>\<open>5\<close> is taken as a key, a diagnostic is
  recorded for it and the \<^verbatim>\<open>a\<close> after it is passed over; then \<^verbatim>\<open>=\<close> is taken as a key,
  a second diagnostic is recorded and the \<^verbatim>\<open>1\<close> is passed over. The game returned has
  an empty block.
\<close>

theorem number_in_block_taken_as_key:
  "analyse ''game g { 5 a = 1 }'' =
     ([],
      Parsed (Some (GameNode (Some ''g'') (BlockNode ''block'' [])))
        [ExpectedEqualOrBrace ''5'' 1 12, ExpectedEqualOrBrace ''='' 1 16])"
  by code_simp


text \<open>
  C8 fails on the code for a string that ends in an escaped quote. The source
  \<^verbatim>\<open>game g { s = "\"" }\<close> has the string literal \<^verbatim>\<open>"\""\<close>, whose contents are the two
  characters \<^verbatim>\<open>\"\<close>; \<^verbatim>\<open>strip('"')\<close> takes the escaped quote away with the closing one,
  and the value built holds the backslash alone.
\<close>

theorem strip_takes_escaped_quote:
  "analyse (''game g { s = '' @ [quote, backslash, quote, quote] @ '' }'') =
     ([],
      Parsed (Some (GameNode (Some ''g'')
                (BlockNode ''block'' [AssignNode ''s'' (ValueNode (PyStr [backslash]))]))) [])"
  by code_simp

text \<open>
  C9 fails on the code for an object below another node. \<^verbatim>\<open>ObjectNode\<close> is no subclass
  of \<^verbatim>\<open>Node\<close>, so \<^verbatim>\<open>Node.to_dict\<close> does not call its \<^verbatim>\<open>to_dict\<close>: in the result for
  \<^verbatim>\<open>game g { a = { k: 1 } }\<close> the entry \<^verbatim>\<open>value\<close> of the assignment is the \<^verbatim>\<open>ObjectNode\<close>
  itself, not a map from \<^verbatim>\<open>k\<close>.
\<close>

theorem object_value_not_serialized:
  "analyse ''game g { a = { k: 1 } }'' =
     ([],
      Parsed (Some (GameNode (Some ''g'')
                (BlockNode ''block''
                   [AssignNode ''a'' (ObjectNode [(''k'', ValueNode (PyInt 1))])]))) []) \<and>
   to_dict (GameNode (Some ''g'')
              (BlockNode ''block''
                 [AssignNode ''a'' (ObjectNode [(''k'', ValueNode (PyInt 1))])])) =
     Dict [(''type'', Literal (PyStr ''GameNode'')),
           (''name'', Literal (PyStr ''g'')),
           (''body'',
            Dict [(''type'', Literal (PyStr ''BlockNode'')),
                  (''name'', Literal (PyStr ''block'')),
                  (''statements'',
                   Sequence
                     [Dict [(''type'', Literal (PyStr ''AssignNode'')),
                            (''key'', Literal (PyStr ''a'')),
                            (''value'', Instance (ObjectNode [(''k'', ValueNode (PyInt 1))]))]])])]"
  by code_simp

end
